theory Spec2Isabelle
  imports Main "HOL-Library.Word"
begin

section \<open>Data model of the tail package (tail.go)\<close>

text \<open>
  Go strings and byte slices are byte sequences: \<open>string\<close> (a \<open>char list\<close>).
  \<open>time.Time\<close> values are opaque instants; only equality of instants is ever used by
  the code, so a natural number stands for one (0 is the zero value \<open>time.Time{}\<close>).
\<close>

type_synonym instant = nat

text \<open>\<open>type Line struct { Text string; Time time.Time }\<close>\<close>

record Line =
  Text :: string
  Time :: instant

text \<open>
  \<open>type Config struct\<close>. \<open>Location\<close> is a Go \<open>int\<close>, taken at its 64-bit width because the
  seek computation converts it to \<open>int64\<close> and negates it. \<open>MaxLineSize\<close> is only compared
  and added to lengths of strings held in memory, where no overflow can occur, so it is
  an unbounded integer.
\<close>

record Config =
  Location :: "64 word"
  Follow :: bool
  ReOpen :: bool
  MustExist :: bool
  Poll :: bool
  MaxLineSize :: int

text \<open>
  Errors are values. \<open>NotExist\<close> stands for every error on which \<open>os.IsNotExist\<close> is true,
  \<open>IOError\<close> for any other error of the operating system, \<open>EOF\<close> for \<open>io.EOF\<close>,
  \<open>ErrBufferFull\<close> for \<open>bufio.ErrBufferFull\<close>,
  \<open>ErrDying\<close> for \<open>tomb.ErrDying\<close>; the remaining constructors are the errors the
  package formats itself with \<open>fmt.Errorf\<close> and \<open>Killf\<close>.
\<close>

datatype error =
    NotExist
  | IOError string
  | EOF
  | ErrBufferFull
  | ErrDying
  | FailedToDetectCreation string error
  | UnableToOpen string error
  | SeekError string error
  | ErrorReading string error

section \<open>partitionString\<close>

text \<open>
  A Go slice expression \<open>s[lo:hi]\<close> panics unless \<open>0 \<le> lo \<le> hi \<le> len(s)\<close>.
\<close>

definition slice :: "string \<Rightarrow> int \<Rightarrow> int \<Rightarrow> string + string" where
  "slice s lo hi =
     (if 0 \<le> lo \<and> lo \<le> hi \<and> hi \<le> int (length s)
      then Inr (take (nat (hi - lo)) (drop (nat lo) s))
      else Inl ''slice bounds out of range'')"

text \<open>
  The \<open>for\<close> loop of \<open>partitionString\<close>, with its variables \<open>start\<close>, \<open>end\<close> and \<open>parts\<close>
  as arguments. The loop has no bound of its own (with \<open>chunkSize = 0\<close> and a non-empty
  string it would never leave), so it is a partial function: \<open>None\<close> is "does not
  return", \<open>Some (Inl msg)\<close> a panic, \<open>Some (Inr parts)\<close> the returned slice.
  The capacity \<open>chunks\<close> given to \<open>make\<close> does not change what is appended and is left
  out. Lengths and \<open>end + chunkSize\<close> are unbounded integers: the sum is only formed
  while \<open>end < len(s)\<close> and after \<open>end\<close> was a multiple of \<open>chunkSize\<close>, so it stays
  below twice the length of a string held in memory.
\<close>

partial_function (option) partitionLoop ::
  "string \<Rightarrow> int \<Rightarrow> int \<Rightarrow> int \<Rightarrow> string list \<Rightarrow> (string + string list) option"
where
  "partitionLoop s chunkSize start end parts =
     (let len = int (length s);
          end1 = (if end > len then len else end)
      in case slice s start end1 of
           Inl msg \<Rightarrow> Some (Inl msg)
         | Inr part \<Rightarrow>
             (let parts1 = parts @ [part]
              in if end1 = len then Some (Inr parts1)
                 else partitionLoop s chunkSize end1 (end1 + chunkSize) parts1))"

declare partitionLoop.simps [code]

definition partitionString :: "string \<Rightarrow> int \<Rightarrow> (string + string list) option" where
  "partitionString s chunkSize =
     (if chunkSize \<le> 0 then Some (Inl ''invalid chunkSize'')
      else partitionLoop s chunkSize 0 chunkSize [])"

section \<open>The seek target of tailFileSync\<close>

text \<open>
  Lines 131 to 141 of tail.go: \<open>whence\<close> and \<open>offset\<close> start at their zero values; the
  arithmetic is that of \<open>int64\<close>, so \<open>-1*int64(Location) - 1\<close> wraps around.
  The comparisons are signed.
\<close>

definition seekTarget :: "Config \<Rightarrow> int \<times> 64 word" where
  "seekTarget c =
     (if 0 \<le> sint (Location c) then (0, Location c)
      else if sint (Location c) < 0 then (0, - 1 * Location c - 1)
      else (2, 0))"

text \<open>
  What \<open>file.Seek(offset, whence)\<close> does on a regular file of \<open>sz\<close> bytes: the new
  position counted from the start of the file, or an error when it would be negative.
  A position beyond the end is allowed.
  The largest offset a file system accepts (seeks or reads near the top of \<open>int64\<close> fail
  on some) is not part of this description.
\<close>

definition seekPos :: "nat \<Rightarrow> int \<Rightarrow> 64 word \<Rightarrow> error + nat" where
  "seekPos sz whence offset =
     (let p = (if whence = 0 then sint offset else int sz + sint offset)
      in if p < 0 then Inl (IOError ''invalid argument'') else Inr (nat p))"

section \<open>Emitting one line that was read\<close>

text \<open>
  Lines 156 to 163 of tail.go: the lines sent on \<open>tail.Lines\<close> for one successful
  \<open>readLine\<close>, in the order of the sends, all with the instant \<open>now\<close> captured once.
\<close>

definition emitLine :: "Config \<Rightarrow> string \<Rightarrow> instant \<Rightarrow> (string + Line list) option" where
  "emitLine c line now =
     (if MaxLineSize c > 0 \<and> int (length line) > MaxLineSize c
      then (case partitionString line (MaxLineSize c) of
              None \<Rightarrow> None
            | Some (Inl msg) \<Rightarrow> Some (Inl msg)
            | Some (Inr parts) \<Rightarrow> Some (Inr (map (\<lambda>l. \<lparr>Text = l, Time = now\<rparr>) parts)))
      else Some (Inr [\<lparr>Text = line, Time = now\<rparr>]))"

section \<open>Reading one line: bufio.Reader.ReadLine\<close>

text \<open>
  \<open>tail.readLine\<close> calls \<open>ReadLine\<close> of the Go standard library on a \<open>bufio.Reader\<close> made
  by \<open>bufio.NewReader\<close>, whose buffer holds 4096 bytes. The reader is described by the
  bytes it has not handed out yet, \<open>unread\<close>: those in its buffer followed by those of
  the file beyond them. \<open>fault\<close> is what a read of the file returns once these bytes are
  used up: \<open>None\<close> for end of file, \<open>Some e\<close> for a failing read.

  \<open>ReadSlice('\n')\<close> returns the bytes up to and including the first newline when it
  lies within a full buffer; a full buffer and \<open>ErrBufferFull\<close> when there is none in
  it; otherwise everything that is left, with the error of the read that found no more.
\<close>

definition LF :: char where "LF = CHR 0x0A"
definition CR :: char where "CR = CHR 0x0D"

definition defaultBufSize :: nat where "defaultBufSize = 4096"

definition ReadSlice :: "string \<Rightarrow> error option \<Rightarrow> (string \<times> error option) \<times> string" where
  "ReadSlice unread fault =
     (let buf = take defaultBufSize unread
      in if LF \<in> set buf
         then (let n = Suc (length (takeWhile (\<lambda>c. c \<noteq> LF) buf))
               in ((take n unread, None), drop n unread))
         else if defaultBufSize \<le> length unread
         then ((buf, Some ErrBufferFull), drop defaultBufSize unread)
         else ((unread, Some (case fault of None \<Rightarrow> EOF | Some e \<Rightarrow> e)), []))"

text \<open>
  \<open>ReadLine\<close> returns \<open>(line, isPrefix, err)\<close>; a \<open>nil\<close> line is \<open>None\<close>. On a full buffer
  that ends in a carriage return, that byte is put back. Otherwise the line end,
  \<open>"\n"\<close> or \<open>"\r\n"\<close>, is dropped, and an error is only reported with no data.
\<close>

definition ReadLine ::
  "string \<Rightarrow> error option \<Rightarrow> (string option \<times> bool \<times> error option) \<times> string" where
  "ReadLine unread fault =
     (case ReadSlice unread fault of ((line, err), rest) \<Rightarrow>
        if err = Some ErrBufferFull then
          (if length line > 0 \<and> last line = CR
           then ((Some (butlast line), True, None), CR # rest)
           else ((Some line, True, None), rest))
        else if length line = 0 then
          ((if err \<noteq> None then None else Some line, False, err), rest)
        else if last line = LF then
          (let d = (if length line > 1 \<and> line ! (length line - 2) = CR then 2 else 1)
           in ((Some (take (length line - d) line), False, None), rest))
        else ((Some line, False, None), rest))"

text \<open>\<open>func (tail *Tail) readLine() ([]byte, error)\<close>: the \<open>isPrefix\<close> result is discarded.\<close>

definition readLine :: "string \<Rightarrow> error option \<Rightarrow> (string option \<times> error option) \<times> string" where
  "readLine unread fault =
     (case ReadLine unread fault of ((line, isPrefix, err), rest) \<Rightarrow> ((line, err), rest))"

section \<open>The Tail session and TailFile\<close>

text \<open>The two file watchers. \<open>NewPollingFileWatcher\<close> is in watch/polling.go.\<close>

datatype watcher = PollingFileWatcher string int | InotifyFileWatcher string

definition NewPollingFileWatcher :: "string \<Rightarrow> watcher" where
  "NewPollingFileWatcher filename = PollingFileWatcher filename 0"

text \<open>
  Modelled from the spec: \<open>NewInotifyFileWatcher\<close> is not among the sources. The spec has
  the strategy "selected once at session construction by a configuration flag" and a
  watcher start its monitoring task only when asked to watch, so the constructor only
  builds the value.
\<close>

definition NewInotifyFileWatcher :: "string \<Rightarrow> watcher" where
  "NewInotifyFileWatcher filename = InotifyFileWatcher filename"

text \<open>
  Where the driver task \<open>tailFileSync\<close> stands. \<open>Opening\<close> and \<open>AwaitExists\<close> are inside
  \<open>reopen\<close>, called either at the start (\<open>Initial\<close>) or after the watched file went away
  (\<open>Rotated\<close>); \<open>Sending ls\<close> is blocked in \<open>tail.Lines <- l\<close> for the first line of \<open>ls\<close>,
  with the rest of \<open>ls\<close> still to send; \<open>Waiting\<close> is the \<open>select\<close> on the change channel
  and \<open>Dying\<close>; \<open>Checking\<close> is the \<open>select\<close> with \<open>default\<close> at the end of the loop body;
  \<open>Exited\<close> is after \<open>return\<close> and the deferred \<open>Done\<close>; \<open>Crashed\<close> is a panic.
\<close>

datatype caller = Initial | Rotated

datatype pc =
    AtStart
  | Opening caller
  | AwaitExists caller
  | Seeking
  | Reading
  | Sending "Line list"
  | Waiting
  | Checking
  | Exited
  | Crashed string

text \<open>The channel returned by \<open>ChangeEvents\<close>: events not yet received, and whether it is closed.\<close>

record chan =
  queued :: nat
  chClosed :: bool

text \<open>
  The session. Of the struct \<open>Tail\<close>: \<open>Filename\<close>, the embedded \<open>Config\<close> (\<open>cfg\<close>),
  \<open>watcher\<close>; \<open>fileH\<close> (the field \<open>file\<close>) is \<open>None\<close> for \<open>nil\<close> and \<open>Some n\<close> for a handle on which \<open>Close\<close>
  was called \<open>n\<close> times (\<open>retired\<close> keeps that count for the handles \<open>tail.file\<close> no
  longer refers to); \<open>unread\<close> is the reader (see \<open>ReadSlice\<close>). Of the channel
  \<open>Lines\<close>: the lines the consumer has received (\<open>delivered\<close>) and how often
  \<open>close(tail.Lines)\<close> ran (\<open>linesClosed\<close>). Of the embedded \<open>tomb.Tomb\<close>: \<open>dying\<close>, the
  \<open>reason\<close> (the first error given to \<open>Kill\<close>) and \<open>dead\<close> (after \<open>Done\<close>). Of the driver's
  locals: \<open>pc\<close> and \<open>changes\<close>. Of the world around it: \<open>disk\<close> is what \<open>os.Open\<close> and
  \<open>os.Stat\<close> of \<open>Filename\<close> find now (an error, or the content of the file there),
  \<open>readFault\<close> and \<open>seekFault\<close> the errors a read at the end of the data and a seek
  meet, \<open>now\<close> the clock.
\<close>

record Tail =
  Filename :: string
  cfg :: Config
  watcher :: watcher
  fileH :: "nat option"
  retired :: "nat list"
  unread :: string
  delivered :: "Line list"
  linesClosed :: nat
  dying :: bool
  reason :: "error option"
  dead :: bool
  pc :: pc
  changes :: "chan option"
  disk :: "error + string"
  readFault :: "error option"
  seekFault :: "error option"
  now :: instant

text \<open>
  \<open>TailFile\<close>. \<open>fs\<close> is the file system at the time of the call: what \<open>os.Open\<close> returns
  for a path. The result says which tasks the call started with \<open>go\<close> and how it ended:
  with a panic, or by returning an error or the session.
\<close>

datatype task = TailFileSync

datatype 'a outcome = Panicked string | Returned 'a

record started =
  spawned :: "task list"
  outcome :: "(error + Tail) outcome"

definition newTail :: "(string \<Rightarrow> error + string) \<Rightarrow> string \<Rightarrow> Config \<Rightarrow> Tail" where
  "newTail fs filename config =
     \<lparr>Filename = filename, cfg = config,
      watcher = (if Poll config then NewPollingFileWatcher filename
                 else NewInotifyFileWatcher filename),
      fileH = None, retired = [], unread = [], delivered = [], linesClosed = 0,
      dying = False, reason = None, dead = False, pc = AtStart, changes = None,
      disk = fs filename, readFault = None, seekFault = None, now = 0\<rparr>"

definition TailFile :: "(string \<Rightarrow> error + string) \<Rightarrow> string \<Rightarrow> Config \<Rightarrow> started" where
  "TailFile fs filename config =
     (if ReOpen config \<and> \<not> Follow config
      then \<lparr>spawned = [], outcome = Panicked ''cannot set ReOpen without Follow.''\<rparr>
      else let t = newTail fs filename config
           in if MustExist config
              then (case fs filename of
                      Inl err \<Rightarrow> \<lparr>spawned = [], outcome = Returned (Inl err)\<rparr>
                    | Inr content \<Rightarrow>
                        \<lparr>spawned = [TailFileSync],
                         outcome = Returned (Inr (t\<lparr>fileH := Some 0, unread := content\<rparr>))\<rparr>)
              else \<lparr>spawned = [TailFileSync], outcome = Returned (Inr t)\<rparr>)"

section \<open>The driver task tailFileSync\<close>

text \<open>
  \<open>tomb.Kill(reason)\<close> flags the tomb as dying and keeps the first error it is given.
  \<open>Stop\<close> is \<open>Kill(nil)\<close> followed by \<open>Wait\<close>, which returns the reason once the tomb is
  dead and blocks (\<open>None\<close>) before.
\<close>

definition Kill :: "error option \<Rightarrow> Tail \<Rightarrow> Tail" where
  "Kill r t = t\<lparr>dying := True, reason := (case reason t of None \<Rightarrow> r | Some e \<Rightarrow> Some e)\<rparr>"

definition Wait :: "Tail \<Rightarrow> error option option" where
  "Wait t = (if dead t then Some (reason t) else None)"

definition Done :: "Tail \<Rightarrow> Tail" where
  "Done t = t\<lparr>dead := True\<rparr>"

text \<open>
  \<open>func (tail *Tail) close()\<close>: closes the channel, which panics in Go when the channel
  is closed already, then the file if there is one.
\<close>

definition closeTail :: "Tail \<Rightarrow> string + Tail" where
  "closeTail t =
     (if 0 < linesClosed t then Inl ''close of closed channel''
      else Inr (t\<lparr>linesClosed := Suc (linesClosed t), fileH := map_option Suc (fileH t)\<rparr>))"

text \<open>
  The exits of \<open>tailFileSync\<close>: \<open>tail.close()\<close>, then \<open>Kill\<close> or \<open>Killf\<close> when there is an
  error, then \<open>return\<close>, on which the deferred \<open>tail.Done()\<close> runs (also after a panic).
\<close>

definition exitDriver :: "error option \<Rightarrow> Tail \<Rightarrow> Tail" where
  "exitDriver err t =
     (case closeTail t of
        Inl msg \<Rightarrow> Done (t\<lparr>pc := Crashed msg\<rparr>)
      | Inr t1 \<Rightarrow>
          Done ((case err of None \<Rightarrow> t1 | Some e \<Rightarrow> Kill (Some e) t1)\<lparr>pc := Exited\<rparr>))"

text \<open>The first statement of \<open>reopen\<close>: close the file held so far.\<close>

definition reopenBegin :: "caller \<Rightarrow> Tail \<Rightarrow> Tail" where
  "reopenBegin who t =
     (case fileH t of
        None \<Rightarrow> t\<lparr>pc := Opening who\<rparr>
      | Some n \<Rightarrow> t\<lparr>fileH := Some (Suc n), pc := Opening who\<rparr>)"

text \<open>
  One step of the driver task (tail.go, lines 115 to 223, with \<open>reopen\<close>, lines 87 to
  108): the states it can be in afterwards. The empty list means that the task is
  blocked (or has ended); two entries arise where a \<open>select\<close> has two ready cases.

  The watcher is seen through what the driver gets from it. \<open>BlockUntilExists\<close> follows
  watch/polling.go (lines 24 to 39) with the session's tomb: it returns when the path
  exists, fails on another error of \<open>os.Stat\<close>, returns \<open>ErrDying\<close> when the tomb is
  dying, and keeps polling otherwise. \<open>ChangeEvents\<close> gives a fresh channel; what the
  watcher sends on it, and its closing, are events of the surroundings (below).
\<close>

definition driverStep :: "Tail \<Rightarrow> Tail list" where
  "driverStep t =
     (case pc t of
        AtStart \<Rightarrow>
          (if \<not> MustExist (cfg t) then [reopenBegin Initial t] else [t\<lparr>pc := Seeking\<rparr>])
      | Opening who \<Rightarrow>
          (case disk t of
             Inr content \<Rightarrow>
               (let t1 = t\<lparr>retired := retired t @ (case fileH t of None \<Rightarrow> [] | Some n \<Rightarrow> [n]),
                           fileH := Some 0, unread := content\<rparr>
                in case who of
                     Initial \<Rightarrow> [t1\<lparr>pc := Seeking\<rparr>]
                   | Rotated \<Rightarrow> [t1\<lparr>changes := None, pc := Reading\<rparr>])
           | Inl err \<Rightarrow>
               (let t1 = t\<lparr>retired := retired t @ (case fileH t of None \<Rightarrow> [] | Some n \<Rightarrow> [n]),
                           fileH := None\<rparr>
                in if err = NotExist then [t1\<lparr>pc := AwaitExists who\<rparr>]
                   else [exitDriver (Some (UnableToOpen (Filename t) err)) t1]))
      | AwaitExists who \<Rightarrow>
          (case disk t of
             Inr content \<Rightarrow> [t\<lparr>pc := Opening who\<rparr>]
           | Inl err \<Rightarrow>
               if err \<noteq> NotExist
               then [exitDriver (Some (FailedToDetectCreation (Filename t) err)) t]
               else if dying t
               then [exitDriver (Some (FailedToDetectCreation (Filename t) ErrDying)) t]
               else [])
      | Seeking \<Rightarrow>
          (case seekTarget (cfg t) of (whence, offset) \<Rightarrow>
             (case (case seekFault t of
                      Some e \<Rightarrow> Inl e
                    | None \<Rightarrow> seekPos (length (unread t)) whence offset) of
                Inl e \<Rightarrow> [exitDriver (Some (SeekError (Filename t) e)) t]
              | Inr p \<Rightarrow> [t\<lparr>unread := drop p (unread t), pc := Reading\<rparr>]))
      | Reading \<Rightarrow>
          (case readLine (unread t) (readFault t) of ((line, err), rest) \<Rightarrow>
             (case err of
                None \<Rightarrow>
                  (case line of
                     None \<Rightarrow> [t\<lparr>unread := rest, pc := Checking\<rparr>]
                   | Some l \<Rightarrow>
                       (case emitLine (cfg t) l (now t) of
                          None \<Rightarrow> []
                        | Some (Inl msg) \<Rightarrow> [Done (t\<lparr>unread := rest, pc := Crashed msg\<rparr>)]
                        | Some (Inr ls) \<Rightarrow>
                            [t\<lparr>unread := rest, pc := (if ls = [] then Checking else Sending ls)\<rparr>]))
              | Some e \<Rightarrow>
                  if e \<noteq> EOF
                  then [exitDriver (Some (ErrorReading (Filename t) e)) (t\<lparr>unread := rest\<rparr>)]
                  else if changes t = None
                  then (if Follow (cfg t)
                        then [t\<lparr>unread := rest, changes := Some \<lparr>queued = 0, chClosed = False\<rparr>,
                               pc := Waiting\<rparr>]
                        else [exitDriver None (t\<lparr>unread := rest\<rparr>)])
                  else [t\<lparr>unread := rest, pc := Waiting\<rparr>]))
      | Sending ls \<Rightarrow> []
      | Waiting \<Rightarrow>
          (case changes t of
             None \<Rightarrow> []
           | Some ch \<Rightarrow>
               if 0 < queued ch
               then [t\<lparr>changes := Some (ch\<lparr>queued := queued ch - 1\<rparr>), pc := Checking\<rparr>]
               else if chClosed ch
               then (if ReOpen (cfg t) then [reopenBegin Rotated t] else [exitDriver None t])
               else [])
          @ (if dying t then [exitDriver None t] else [])
      | Checking \<Rightarrow> (if dying t then [exitDriver None t] else [t\<lparr>pc := Reading\<rparr>])
      | Exited \<Rightarrow> []
      | Crashed msg \<Rightarrow> [])"

section \<open>What happens around the driver task\<close>

text \<open>The consumer receives from \<open>tail.Lines\<close>: possible only while the driver is sending.\<close>

definition consumerRecv :: "Tail \<Rightarrow> Tail option" where
  "consumerRecv t =
     (case pc t of
        Sending ls \<Rightarrow>
          (case ls of
             [] \<Rightarrow> None
           | l # rest \<Rightarrow>
               Some (t\<lparr>delivered := delivered t @ [l],
                       pc := (if rest = [] then Checking else Sending rest)\<rparr>))
      | _ \<Rightarrow> None)"

text \<open>
  The other events: a caller invokes \<open>Stop\<close> (its \<open>Kill(nil)\<close>); bytes are appended to the
  open file; the watcher sends on the change channel or closes it; the path changes on
  disk; reads or seeks start to fail; time passes.
\<close>

datatype event =
    StopCalled
  | Append string
  | Notify
  | CloseChanges
  | SetDisk "error + string"
  | SetReadFault "error option"
  | SetSeekFault "error option"
  | Tick instant

definition envStep :: "event \<Rightarrow> Tail \<Rightarrow> Tail" where
  "envStep ev t =
     (case ev of
        StopCalled \<Rightarrow> Kill None t
      | Append bs \<Rightarrow> t\<lparr>unread := unread t @ bs\<rparr>
      | Notify \<Rightarrow>
          t\<lparr>changes := map_option (\<lambda>ch. if chClosed ch then ch else ch\<lparr>queued := Suc (queued ch)\<rparr>)
                          (changes t)\<rparr>
      | CloseChanges \<Rightarrow> t\<lparr>changes := map_option (\<lambda>ch. ch\<lparr>chClosed := True\<rparr>) (changes t)\<rparr>
      | SetDisk d \<Rightarrow> t\<lparr>disk := d\<rparr>
      | SetReadFault f \<Rightarrow> t\<lparr>readFault := f\<rparr>
      | SetSeekFault f \<Rightarrow> t\<lparr>seekFault := f\<rparr>
      | Tick n \<Rightarrow> t\<lparr>now := n\<rparr>)"

text \<open>
  The states a session can reach: \<open>TailFile\<close> returned it, and then the driver, the
  consumer and the events above took turns in any order.
\<close>

inductive reachable :: "Tail \<Rightarrow> bool" where
  start: "outcome (TailFile fs filename config) = Returned (Inr t) \<Longrightarrow> reachable t"
| driver: "reachable t \<Longrightarrow> t' \<in> set (driverStep t) \<Longrightarrow> reachable t'"
| consumer: "reachable t \<Longrightarrow> consumerRecv t = Some t' \<Longrightarrow> reachable t'"
| env: "reachable t \<Longrightarrow> reachable (envStep ev t)"

text \<open>
  A run in which the consumer receives whatever is offered and nothing else happens:
  \<open>next\<close> is the consumer's receive when the driver is sending, the driver's step
  otherwise, and no change when the driver is blocked or has ended. \<open>drive\<close> is the
  driver alone, with a consumer that never receives.
\<close>

definition nextStep :: "Tail \<Rightarrow> Tail" where
  "nextStep t =
     (case consumerRecv t of
        Some t' \<Rightarrow> t'
      | None \<Rightarrow> (case driverStep t of [] \<Rightarrow> t | t' # _ \<Rightarrow> t'))"

definition drive :: "Tail \<Rightarrow> Tail" where
  "drive t = (case driverStep t of [] \<Rightarrow> t | t' # _ \<Rightarrow> t')"

definition run :: "nat \<Rightarrow> Tail \<Rightarrow> Tail" where
  "run n t = (nextStep ^^ n) t"

section \<open>The polling watcher (watch/polling.go)\<close>

text \<open>
  What \<open>os.Stat\<close> tells of a file: its identity (device and inode, compared by
  \<open>os.SameFile\<close>), its size and its modification time.
\<close>

record FileInfo =
  fileId :: nat
  fileSize :: int
  fileModTime :: instant

definition SameFile :: "FileInfo \<Rightarrow> FileInfo \<Rightarrow> bool" where
  "SameFile a b = (fileId a = fileId b)"

text \<open>
  The calls \<open>NotifyModified\<close>, \<open>NotifyTruncated\<close> and \<open>NotifyDeleted\<close> on the
  \<open>FileChanges\<close> value are recorded in the order they are made.
\<close>

datatype signal = Modified | Truncated | Deleted

text \<open>How one pass through the body of the monitoring loop ends.\<close>

datatype flow = Continue | Return | Panic error

text \<open>
  The state of the monitoring task of \<open>ChangeEvents\<close>: the field \<open>fw.Size\<close>, the locals
  \<open>prevSize\<close> and \<open>prevModTime\<close>, the notifications made so far, whether the deferred
  \<open>changes.Close()\<close> has run, and the value the task panicked with.
\<close>

record poller =
  Size :: int
  prevSize :: int
  prevModTime :: instant
  notified :: "signal list"
  changesClosed :: bool
  panicked :: "error option"

text \<open>
  \<open>ChangeEvents\<close> before it starts the task: \<open>fw.Size = origFi.Size()\<close>, \<open>prevSize\<close> is
  read from it, \<open>prevModTime\<close> is the zero time.
\<close>

definition startPoller :: "FileInfo \<Rightarrow> poller" where
  "startPoller origFi =
     \<lparr>Size = fileSize origFi, prevSize = fileSize origFi, prevModTime = 0,
      notified = [], changesClosed = False, panicked = None\<rparr>"

text \<open>
  One pass through the loop body (lines 55 to 93): the check of \<open>Dying\<close>, the sleep,
  then \<open>os.Stat\<close>, whose result is \<open>st\<close>.
\<close>

definition pollIteration ::
  "FileInfo \<Rightarrow> bool \<Rightarrow> error + FileInfo \<Rightarrow> poller \<Rightarrow> flow \<times> poller" where
  "pollIteration origFi isDying st p =
     (if isDying then (Return, p)
      else case st of
        Inl err \<Rightarrow>
          if err = NotExist then (Return, p\<lparr>notified := notified p @ [Deleted]\<rparr>)
          else (Panic err, p)
      | Inr fi \<Rightarrow>
          if \<not> SameFile origFi fi then (Return, p\<lparr>notified := notified p @ [Deleted]\<rparr>)
          else
            (let p1 = p\<lparr>Size := fileSize fi\<rparr>
             in if prevSize p1 > 0 \<and> prevSize p1 > Size p1
                then (Continue, p1\<lparr>notified := notified p1 @ [Truncated], prevSize := Size p1\<rparr>)
                else
                  (let p2 = p1\<lparr>prevSize := Size p1\<rparr>;
                       modTime = fileModTime fi
                   in if modTime \<noteq> prevModTime p2
                      then (Continue, p2\<lparr>prevModTime := modTime,
                                          notified := notified p2 @ [Modified]\<rparr>)
                      else (Continue, p2))))"

text \<open>
  The monitoring task over the observations it makes, one pair of \<open>Dying\<close> and
  \<open>os.Stat\<close> per pass. When it returns or panics, the deferred \<open>changes.Close()\<close> runs.
\<close>

fun pollLoop :: "FileInfo \<Rightarrow> (bool \<times> (error + FileInfo)) list \<Rightarrow> poller \<Rightarrow> poller" where
  "pollLoop origFi [] p = p"
| "pollLoop origFi ((isDying, st) # obs) p =
     (case pollIteration origFi isDying st p of
        (Continue, p1) \<Rightarrow> pollLoop origFi obs p1
      | (Return, p1) \<Rightarrow> p1\<lparr>changesClosed := True\<rparr>
      | (Panic e, p1) \<Rightarrow> p1\<lparr>changesClosed := True, panicked := Some e\<rparr>)"

section \<open>Reference functions and example inputs\<close>

text \<open>
  The chunks of \<open>xs\<close> of \<open>k\<close> bytes each, the last one shorter when \<open>k\<close> does not divide
  the length: what \<open>partitionString\<close> is proved to compute.
\<close>

function chunks :: "nat \<Rightarrow> string \<Rightarrow> string list" where
  "chunks k xs = (if k = 0 \<or> length xs \<le> k then [xs] else take k xs # chunks k (drop k xs))"
  by pat_completeness auto
termination
  by (relation "measure (\<lambda>(k, xs). length xs)") auto

declare chunks.simps [simp del]

text \<open>A file of complete lines: every line followed by a newline.\<close>

definition fileOf :: "string list \<Rightarrow> string" where
  "fileOf ls = concat (map (\<lambda>l. l @ [LF]) ls)"

text \<open>Example configurations and files.\<close>

definition cfg3 :: Config where
  "cfg3 = \<lparr>Location = - 1, Follow = True, ReOpen = False, MustExist = False, Poll = False,
           MaxLineSize = 3\<rparr>"

definition cfgOnce :: Config where
  "cfgOnce = \<lparr>Location = - 1, Follow = False, ReOpen = False, MustExist = True, Poll = False,
              MaxLineSize = 0\<rparr>"

definition cfgEnd :: Config where
  "cfgEnd = \<lparr>Location = 0, Follow = True, ReOpen = False, MustExist = True, Poll = False,
             MaxLineSize = 0\<rparr>"

definition cfgBad :: Config where
  "cfgBad = \<lparr>Location = 0, Follow = False, ReOpen = True, MustExist = False, Poll = False,
             MaxLineSize = 0\<rparr>"

definition fsWith :: "string \<Rightarrow> string \<Rightarrow> string \<Rightarrow> error + string" where
  "fsWith name content path = (if path = name then Inr content else Inl NotExist)"

definition fi0 :: FileInfo where
  "fi0 = \<lparr>fileId = 7, fileSize = 12, fileModTime = 100\<rparr>"

text \<open>
  A line that the reader returns whole and that is sent as it is: no newline inside,
  short enough for the reader's buffer together with its newline, no carriage return
  at its end, and not longer than \<open>MaxLineSize\<close> when splitting is on.
\<close>

definition plain :: "Config \<Rightarrow> string \<Rightarrow> bool" where
  "plain c l \<longleftrightarrow> LF \<notin> set l \<and> length l < defaultBufSize \<and> (l = [] \<or> last l \<noteq> CR)
      \<and> (MaxLineSize c \<le> 0 \<or> int (length l) \<le> MaxLineSize c)"

text \<open>
  States of a session that the proofs name: as \<open>TailFile\<close> returns it when it opened the
  file itself (\<open>opened\<close>); when the driver is about to read the first line
  (\<open>atReading\<close>); when it has sent the lines \<open>ls\<close> and is about to read again at the end
  of the file (\<open>atEnd\<close>); when it waits there for changes (\<open>atWaiting\<close>); when it has
  returned there (\<open>atExit\<close>).
\<close>

definition opened :: "(string \<Rightarrow> error + string) \<Rightarrow> string \<Rightarrow> Config \<Rightarrow> string \<Rightarrow> Tail" where
  "opened fs filename c content = (newTail fs filename c)\<lparr>fileH := Some 0, unread := content\<rparr>"

definition atReading :: "(string \<Rightarrow> error + string) \<Rightarrow> string \<Rightarrow> Config \<Rightarrow> string \<Rightarrow> Tail" where
  "atReading fs filename c content =
     (newTail fs filename c)\<lparr>fileH := Some 0, unread := content, pc := Reading\<rparr>"

definition atEnd :: "(string \<Rightarrow> error + string) \<Rightarrow> string \<Rightarrow> Config \<Rightarrow> string list \<Rightarrow> Tail" where
  "atEnd fs filename c ls =
     (newTail fs filename c)\<lparr>fileH := Some 0, unread := [],
        delivered := map (\<lambda>l. \<lparr>Text = l, Time = 0\<rparr>) ls, pc := Reading\<rparr>"

definition atWaiting :: "(string \<Rightarrow> error + string) \<Rightarrow> string \<Rightarrow> Config \<Rightarrow> string list \<Rightarrow> Tail" where
  "atWaiting fs filename c ls =
     (atEnd fs filename c ls)\<lparr>changes := Some \<lparr>queued = 0, chClosed = False\<rparr>, pc := Waiting\<rparr>"

definition atExit :: "(string \<Rightarrow> error + string) \<Rightarrow> string \<Rightarrow> Config \<Rightarrow> string list \<Rightarrow> Tail" where
  "atExit fs filename c ls =
     (atEnd fs filename c ls)\<lparr>linesClosed := 1, fileH := Some 1, dead := True, pc := Exited\<rparr>"

definition atFinal :: "(string \<Rightarrow> error + string) \<Rightarrow> string \<Rightarrow> Config \<Rightarrow> string list \<Rightarrow> Tail" where
  "atFinal fs filename c ls =
     (if Follow c then atWaiting fs filename c ls else atExit fs filename c ls)"

text \<open>
  What holds of a session wherever the driver stands: the channel \<open>Lines\<close> and the
  current file handle are closed once the driver has returned and not before, every
  earlier handle was closed once, and the driver has not panicked.
\<close>

definition sound :: "Tail \<Rightarrow> bool" where
  "sound t \<longleftrightarrow>
     (\<forall>n \<in> set (retired t). n = 1) \<and>
     (case pc t of
        Exited \<Rightarrow> linesClosed t = 1 \<and> dead t \<and> (fileH t = None \<or> fileH t = Some 1)
      | Crashed msg \<Rightarrow> False
      | AtStart \<Rightarrow> linesClosed t = 0 \<and> \<not> dead t
                   \<and> fileH t = (if MustExist (cfg t) then Some 0 else None)
      | Opening who \<Rightarrow> linesClosed t = 0 \<and> \<not> dead t \<and> (fileH t = None \<or> fileH t = Some 1)
      | AwaitExists who \<Rightarrow> linesClosed t = 0 \<and> \<not> dead t \<and> fileH t = None
      | Sending ls \<Rightarrow> ls \<noteq> [] \<and> linesClosed t = 0 \<and> \<not> dead t \<and> fileH t = Some 0
      | _ \<Rightarrow> linesClosed t = 0 \<and> \<not> dead t \<and> fileH t = Some 0)"

text \<open>
  Example file systems: one file \<open>f\<close>, holding the single line \<open>a\<close>, the lines \<open>hello\<close>
  and \<open>world\<close>, or one line that ends in a carriage return. \<open>sendingA\<close> is the session
  on the first of them when the driver is blocked sending the line \<open>a\<close>.
\<close>

definition fsA :: "string \<Rightarrow> error + string" where
  "fsA = fsWith ''f'' (fileOf [''a''])"

definition fsHW :: "string \<Rightarrow> error + string" where
  "fsHW = fsWith ''f'' (fileOf [''hello'', ''world''])"

definition fsCR :: "string \<Rightarrow> error + string" where
  "fsCR = fsWith ''f'' (fileOf [[CHR ''a'', CR]])"

definition sendingA :: Tail where
  "sendingA = (atReading fsA ''f'' cfgOnce [])\<lparr>pc := Sending [\<lparr>Text = ''a'', Time = 0\<rparr>]\<rparr>"

text \<open>
  Two more examples, with \<open>MaxLineSize = 3\<close>: the session about to read the line \<open>hello\<close>,
  and a file whose single line is \<open>hello\<close> followed by a carriage return.
\<close>

definition readingHello :: Tail where
  "readingHello = atReading (fsWith ''f'' (fileOf [''hello''])) ''f'' cfg3 (fileOf [''hello''])"

definition fsHelloCR :: "string \<Rightarrow> error + string" where
  "fsHelloCR = fsWith ''f'' (fileOf [''hello'' @ [CR]])"

section \<open>partitionString and the emitted fragments\<close>

lemma partitionLoop_chunks:
  "0 < k \<Longrightarrow> start \<le> length s \<Longrightarrow>
   partitionLoop s (int k) (int start) (int start + int k) parts = Some (Inr (parts @ chunks k (drop start s)))"
proof (induction "length s - start" arbitrary: start parts rule: less_induct)
  case less
  show ?case
  proof (cases "length s - start \<le> k")
    case True
    then have e: "(if int start + int k > int (length s) then int (length s) else int start + int k) = int (length s)"
      using less.prems by auto
    have sl: "slice s (int start) (int (length s)) = Inr (drop start s)"
      using less.prems by (simp add: slice_def nat_diff_distrib')
    have c: "chunks k (drop start s) = [drop start s]"
      using True less.prems by (subst chunks.simps) simp
    show ?thesis
      by (subst partitionLoop.simps) (simp add: e sl c Let_def)
  next
    case False
    then have lt: "start + k < length s" by simp
    then have e: "(if int start + int k > int (length s) then int (length s) else int start + int k) = int (start + k)"
      by auto
    have sl: "slice s (int start) (int (start + k)) = Inr (take k (drop start s))"
      using lt by (simp add: slice_def)
    have c: "chunks k (drop start s) = take k (drop start s) # chunks k (drop (start + k) s)"
      using False less.prems by (subst chunks.simps) (simp add: add.commute)
    have ne: "int (start + k) \<noteq> int (length s)" using lt by simp
    have ih: "partitionLoop s (int k) (int (start + k)) (int (start + k) + int k) (parts @ [take k (drop start s)])
        = Some (Inr ((parts @ [take k (drop start s)]) @ chunks k (drop (start + k) s)))"
      using less.hyps[of "start + k"] less.prems lt by simp
    show ?thesis
      apply (subst partitionLoop.simps)
      apply (simp only: e Let_def sl sum.case ne if_False ih c)
      apply simp
      done
  qed
qed

lemma concat_chunks: "concat (chunks k xs) = xs"
  by (induction k xs rule: chunks.induct) (subst chunks.simps, simp)

lemma length_chunks: "0 < k \<Longrightarrow> xs \<noteq> [] \<Longrightarrow> length (chunks k xs) = (length xs + k - 1) div k"
proof (induction k xs rule: chunks.induct)
  case (1 k xs)
  show ?case
  proof (cases "length xs \<le> k")
    case True
    have e: "length xs + k - 1 = (length xs - 1) + k" and l: "length xs - 1 < k"
      using True 1(3) by (cases xs; simp)+
    have "(length xs + k - 1) div k = 1"
      unfolding e by (subst div_add_self2) (use l 1(2) in simp_all)
    then show ?thesis using True by (subst chunks.simps) simp
  next
    case False
    then have ih: "length (chunks k (drop k xs)) = (length xs - k + k - 1) div k"
      using 1 by auto
    have "(length xs + k - 1) div k = Suc ((length xs + k - 1 - k) div k)"
      using False 1(2) by (intro le_div_geq) auto
    then show ?thesis using False 1(2) ih by (subst chunks.simps) simp
  qed
qed

lemma chunks_nth_length:
  "0 < k \<Longrightarrow> Suc i < length (chunks k xs) \<Longrightarrow> length (chunks k xs ! i) = k"
proof (induction k xs arbitrary: i rule: chunks.induct)
  case (1 k xs)
  show ?case
  proof (cases "length xs \<le> k")
    case True
    then have "chunks k xs = [xs]" by (subst chunks.simps) simp
    then show ?thesis using 1(3) by simp
  next
    case False
    then have c: "chunks k xs = take k xs # chunks k (drop k xs)"
      using 1(2) by (subst chunks.simps) simp
    show ?thesis
    proof (cases i)
      case 0
      then show ?thesis using c False by simp
    next
      case (Suc j)
      then have "Suc j < length (chunks k (drop k xs))" using 1(3) c by simp
      then have "length (chunks k (drop k xs) ! j) = k"
        using 1(1)[of j] False 1(2) by simp
      then show ?thesis using c Suc by simp
    qed
  qed
qed

lemma chunks_last_length:
  "0 < k \<Longrightarrow> xs \<noteq> [] \<Longrightarrow> 0 < length (last (chunks k xs)) \<and> length (last (chunks k xs)) \<le> k"
proof (induction k xs rule: chunks.induct)
  case (1 k xs)
  show ?case
  proof (cases "length xs \<le> k")
    case True
    then have "chunks k xs = [xs]" by (subst chunks.simps) simp
    then show ?thesis using True 1(3) by simp
  next
    case False
    then have c: "chunks k xs = take k xs # chunks k (drop k xs)"
      using 1(2) by (subst chunks.simps) simp
    have ne: "chunks k (drop k xs) \<noteq> []" by (subst chunks.simps) simp
    show ?thesis using 1(1) False 1(2) c ne by simp
  qed
qed


lemma partitionString_chunks:
  "0 < k \<Longrightarrow> partitionString s k = Some (Inr (chunks (nat k) s))"
  using partitionLoop_chunks [of "nat k" 0 s "[]"]
  by (simp add: partitionString_def)

lemma emitLine_chunks:
  "0 < MaxLineSize c \<Longrightarrow> MaxLineSize c < int (length line) \<Longrightarrow>
   emitLine c line tm =
     Some (Inr (map (\<lambda>l. \<lparr>Text = l, Time = tm\<rparr>) (chunks (nat (MaxLineSize c)) line)))"
  by (simp add: emitLine_def partitionString_chunks)

lemma map_Text_mk: "map Text (map (\<lambda>l. \<lparr>Text = l, Time = tm\<rparr>) ps) = ps"
  by (simp add: comp_def)

text \<open>
  The lines sent for one byte string that \<open>readLine\<close> returned, when \<open>MaxLineSize\<close> is
  \<open>k > 0\<close> and the string is longer than \<open>k\<close>: they concatenate to it, in order; there
  are \<open>(L + k - 1) div k\<close> of them; every one but the last has exactly \<open>k\<close> bytes and
  the last has between 1 and \<open>k\<close>; all carry the instant captured once.
\<close>

lemma emitLine_split:
  assumes "0 < MaxLineSize c" and "MaxLineSize c < int (length line)"
  shows "\<exists>frags. emitLine c line tm = Some (Inr frags)
     \<and> concat (map Text frags) = line
     \<and> int (length frags) = (int (length line) + MaxLineSize c - 1) div MaxLineSize c
     \<and> (\<forall>i. Suc i < length frags \<longrightarrow> int (length (Text (frags ! i))) = MaxLineSize c)
     \<and> 0 < length (Text (last frags)) \<and> int (length (Text (last frags))) \<le> MaxLineSize c
     \<and> (\<forall>f \<in> set frags. Time f = tm)"
proof -
  define k where "k = nat (MaxLineSize c)"
  define ps where "ps = chunks k line"
  define frags where "frags = map (\<lambda>l. \<lparr>Text = l, Time = tm\<rparr>) ps"
  have k: "0 < k" "int k = MaxLineSize c" using assms by (simp_all add: k_def)
  have ne: "line \<noteq> []" using assms by auto
  have e: "emitLine c line tm = Some (Inr frags)"
    using assms by (simp add: emitLine_chunks frags_def ps_def k_def)
  have t: "map Text frags = ps" unfolding frags_def by (rule map_Text_mk)
  have c: "concat (map Text frags) = line" by (simp add: t ps_def concat_chunks)
  have "length frags = (length line + k - 1) div k"
    using length_chunks [OF k(1) ne] by (simp add: frags_def ps_def)
  then have "int (length frags) = int ((length line + k - 1) div k)" by simp
  also have "\<dots> = (int (length line) + int k - 1) div int k"
    using ne k(1) by (simp add: zdiv_int of_nat_diff)
  finally have n: "int (length frags) = (int (length line) + MaxLineSize c - 1) div MaxLineSize c"
    by (simp add: k)
  have f: "\<forall>i. Suc i < length frags \<longrightarrow> int (length (Text (frags ! i))) = MaxLineSize c"
  proof (intro allI impI)
    fix i assume i: "Suc i < length frags"
    then have "Suc i < length ps" by (simp add: frags_def)
    then have "length (ps ! i) = k" unfolding ps_def by (rule chunks_nth_length [OF k(1)])
    moreover have "Text (frags ! i) = ps ! i" using i by (simp add: frags_def)
    ultimately show "int (length (Text (frags ! i))) = MaxLineSize c" by (simp add: k)
  qed
  have pne: "ps \<noteq> []" unfolding ps_def by (subst chunks.simps) simp
  then have "Text (last frags) = last ps" by (simp add: frags_def last_map)
  then have l: "0 < length (Text (last frags)) \<and> int (length (Text (last frags))) \<le> MaxLineSize c"
    using chunks_last_length [OF k(1) ne] k(2) by (simp add: ps_def)
  have s: "\<forall>f \<in> set frags. Time f = tm" by (auto simp: frags_def)
  show ?thesis using e c n f l s by blast
qed

text \<open>For example, the string \<open>hello\<close> with \<open>MaxLineSize = 3\<close>.\<close>

lemma emitLine_split_hello:
  "0 < MaxLineSize cfg3 \<and> MaxLineSize cfg3 < int (length ''hello'') \<and>
   (\<exists>frags. emitLine cfg3 ''hello'' 7 = Some (Inr frags)
     \<and> concat (map Text frags) = ''hello''
     \<and> int (length frags) = 2
     \<and> (\<forall>i. Suc i < length frags \<longrightarrow> int (length (Text (frags ! i))) = 3)
     \<and> 0 < length (Text (last frags)) \<and> int (length (Text (last frags))) \<le> 3
     \<and> (\<forall>f \<in> set frags. Time f = 7))"
  using emitLine_split [of cfg3 "''hello''" 7] by (simp add: cfg3_def)

text \<open>
  Claim C8, as stated, fails: \<open>partitionString\<close> of the empty string with chunk size 3
  does not return zero fragments.
\<close>

theorem partitionString_empty_counterexample:
  "partitionString [] 3 \<noteq> Some (Inr [])"
  by code_simp

text \<open>
  Claim C8, amended. \<open>partitionString\<close> of the empty string, with a positive chunk size,
  returns exactly one fragment, the empty string. The driver never splits an empty
  line: it sends it as one \<open>Line\<close> with empty text.
\<close>

theorem partitionString_empty:
  "(0 < k \<longrightarrow> partitionString [] k = Some (Inr [[]]))
   \<and> emitLine c [] tm = Some (Inr [\<lparr>Text = [], Time = tm\<rparr>])"
proof -
  have "chunks n [] = [[]]" for n by (subst chunks.simps) simp
  then have "0 < k \<longrightarrow> partitionString [] k = Some (Inr [[]])"
    by (simp add: partitionString_chunks)
  moreover have "emitLine c [] tm = Some (Inr [\<lparr>Text = [], Time = tm\<rparr>])"
    by (auto simp: emitLine_def)
  ultimately show ?thesis by simp
qed

text \<open>Witness for the amended C8, at chunk size 3.\<close>

theorem partitionString_empty_witness:
  "(0::int) < 3 \<and> partitionString [] 3 = Some (Inr [[]])
   \<and> emitLine cfg3 [] 7 = Some (Inr [\<lparr>Text = [], Time = 7\<rparr>])"
  using partitionString_empty [of 3 cfg3 7] by simp

text \<open>
  Claim C10. \<open>partitionString\<close> panics with \<open>invalid chunkSize\<close> when the chunk size is not
  positive and returns chunks when it is; the driver's only call is guarded by
  \<open>MaxLineSize > 0\<close>, so for every configuration and every line read, emitting the line
  returns lines and neither panics nor fails to return.
\<close>

theorem partitionString_panic_unreachable:
  "(chunkSize \<le> 0 \<longrightarrow> partitionString s chunkSize = Some (Inl ''invalid chunkSize''))
   \<and> (0 < chunkSize \<longrightarrow> (\<exists>parts. partitionString s chunkSize = Some (Inr parts)))
   \<and> (\<exists>ls. emitLine c line tm = Some (Inr ls))"
proof -
  have a: "chunkSize \<le> 0 \<longrightarrow> partitionString s chunkSize = Some (Inl ''invalid chunkSize'')"
    by (simp add: partitionString_def)
  have b: "0 < chunkSize \<longrightarrow> (\<exists>parts. partitionString s chunkSize = Some (Inr parts))"
    by (simp add: partitionString_chunks)
  have c: "\<exists>ls. emitLine c line tm = Some (Inr ls)"
  proof (cases "MaxLineSize c > 0 \<and> int (length line) > MaxLineSize c")
    case True
    then show ?thesis by (simp add: emitLine_chunks)
  next
    case False
    then show ?thesis by (auto simp: emitLine_def)
  qed
  show ?thesis using a b c by blast
qed

text \<open>Witness for C10, at chunk sizes 0 and 3.\<close>

theorem partitionString_panic_unreachable_witness:
  "(0::int) \<le> 0 \<and> partitionString ''hello'' 0 = Some (Inl ''invalid chunkSize'')
   \<and> (0::int) < 3 \<and> (\<exists>parts. partitionString ''hello'' 3 = Some (Inr parts))
   \<and> (\<exists>ls. emitLine cfg3 ''hello'' 7 = Some (Inr ls))"
  using partitionString_panic_unreachable [of 0 "''hello''" cfg3 "''hello''" 7]
        partitionString_panic_unreachable [of 3 "''hello''" cfg3 "''hello''" 7]
  by simp

lemma seekTarget_nonneg: "0 \<le> sint (Location c) \<Longrightarrow> seekTarget c = (0, Location c)"
  by (simp add: seekTarget_def)

lemma sint_complement: "sint (- 1 * w - 1 :: 64 word) = - sint w - 1"
proof -
  have w: "- 1 * w - 1 = not w" by (simp add: not_eq_complement)
  have r: "- (2 ^ 63) \<le> sint w" "sint w < 2 ^ 63"
    using sint_ge [of w] sint_lt [of w] by simp_all
  have "sint (not w) = signed_take_bit 64 (not (sint w))"
    using signed_not_eq [of w] by simp
  also have "\<dots> = not (sint w)"
    using r by (intro signed_take_bit_int_eq_self) (simp_all add: not_int_def)
  finally have "sint (not w) = - sint w - 1" by (simp add: not_int_def)
  then show ?thesis by (simp only: w)
qed

lemma seekTarget_neg:
  "sint (Location c) < 0 \<Longrightarrow>
   seekTarget c = (0, - 1 * Location c - 1) \<and> sint (snd (seekTarget c)) = - sint (Location c) - 1"
  using sint_complement [of "Location c"] by (simp add: seekTarget_def)

section \<open>TailFile: configuration and existence checks\<close>

text \<open>
  Claim C4. With \<open>ReOpen\<close> set and \<open>Follow\<close> unset, \<open>TailFile\<close> panics with
  \<open>cannot set ReOpen without Follow.\<close>: it starts no task and returns neither a session
  nor an error, whatever the file system holds.
\<close>

theorem TailFile_reopen_without_follow:
  "ReOpen config \<and> \<not> Follow config \<Longrightarrow>
   TailFile fs filename config =
     \<lparr>spawned = [], outcome = Panicked ''cannot set ReOpen without Follow.''\<rparr>"
  by (simp add: TailFile_def)

text \<open>Witness for C4.\<close>

theorem TailFile_reopen_without_follow_witness:
  "ReOpen cfgBad \<and> \<not> Follow cfgBad \<and>
   TailFile (fsWith ''f'' ''x'') ''f'' cfgBad =
     \<lparr>spawned = [], outcome = Panicked ''cannot set ReOpen without Follow.''\<rparr>"
  using TailFile_reopen_without_follow [of cfgBad "fsWith ''f'' ''x''" "''f''"]
  by (simp add: cfgBad_def)

text \<open>
  Claim C5. For a configuration that \<open>TailFile\<close> accepts (not \<open>ReOpen\<close> without \<open>Follow\<close>)
  and every path: with \<open>MustExist\<close> and no file at the path, \<open>TailFile\<close> returns the error
  of \<open>os.Open\<close> and has started no task; without \<open>MustExist\<close> it returns a session and
  no error, whatever is at the path, with the driver task started, the channel open and
  no error recorded.
\<close>

theorem TailFile_mustExist:
  assumes "\<not> (ReOpen config \<and> \<not> Follow config)"
  shows "(MustExist config \<and> fs filename = Inl NotExist \<longrightarrow>
            TailFile fs filename config = \<lparr>spawned = [], outcome = Returned (Inl NotExist)\<rparr>)
       \<and> (\<not> MustExist config \<longrightarrow>
            TailFile fs filename config =
              \<lparr>spawned = [TailFileSync], outcome = Returned (Inr (newTail fs filename config))\<rparr>
            \<and> pc (newTail fs filename config) = AtStart
            \<and> linesClosed (newTail fs filename config) = 0
            \<and> \<not> dead (newTail fs filename config)
            \<and> reason (newTail fs filename config) = None)"
  using assms by (simp add: TailFile_def newTail_def)

text \<open>Witness for C5: the path \<open>g\<close> in a file system that only has \<open>f\<close>.\<close>

theorem TailFile_mustExist_witness:
  "\<not> (ReOpen cfgOnce \<and> \<not> Follow cfgOnce) \<and> MustExist cfgOnce
   \<and> fsWith ''f'' ''x'' ''g'' = Inl NotExist
   \<and> TailFile (fsWith ''f'' ''x'') ''g'' cfgOnce = \<lparr>spawned = [], outcome = Returned (Inl NotExist)\<rparr>
   \<and> \<not> (ReOpen cfg3 \<and> \<not> Follow cfg3) \<and> \<not> MustExist cfg3
   \<and> TailFile (fsWith ''f'' ''x'') ''g'' cfg3 =
        \<lparr>spawned = [TailFileSync], outcome = Returned (Inr (newTail (fsWith ''f'' ''x'') ''g'' cfg3))\<rparr>"
  using TailFile_mustExist [of cfgOnce "fsWith ''f'' ''x''" "''g''"]
        TailFile_mustExist [of cfg3 "fsWith ''f'' ''x''" "''g''"]
  by (simp add: cfgOnce_def cfg3_def fsWith_def)

section \<open>The polling watcher\<close>

text \<open>
  Claim C6. One wake of the monitoring task (not dying at the check before the sleep),
  as a function of the result of \<open>os.Stat\<close> and of the task's state, for a file whose
  size is not negative: not-found notifies deleted and returns; otherwise a file that
  is not the original one notifies deleted and returns; otherwise a size below the last
  known size notifies truncated, records the size and continues; otherwise a
  modification time different from the last one notifies modified, records it (and the
  size) and continues; otherwise nothing is notified, and the task continues.
\<close>

theorem pollIteration_decision:
  assumes "0 \<le> fileSize fi"
  shows "pollIteration origFi False (Inl NotExist) p
           = (Return, p\<lparr>notified := notified p @ [Deleted]\<rparr>)
       \<and> pollIteration origFi False (Inr fi) p
           = (if \<not> SameFile origFi fi
              then (Return, p\<lparr>notified := notified p @ [Deleted]\<rparr>)
              else if fileSize fi < prevSize p
              then (Continue, p\<lparr>Size := fileSize fi, prevSize := fileSize fi,
                                 notified := notified p @ [Truncated]\<rparr>)
              else if fileModTime fi \<noteq> prevModTime p
              then (Continue, p\<lparr>Size := fileSize fi, prevSize := fileSize fi,
                                 prevModTime := fileModTime fi,
                                 notified := notified p @ [Modified]\<rparr>)
              else (Continue, p\<lparr>Size := fileSize fi, prevSize := fileSize fi\<rparr>))"
  using assms by (auto simp: pollIteration_def Let_def)

text \<open>Witness for C6: the file is gone, and the file has shrunk from 12 to 5 bytes.\<close>

theorem pollIteration_decision_witness:
  "0 \<le> fileSize (fi0\<lparr>fileSize := 5\<rparr>)
   \<and> pollIteration fi0 False (Inl NotExist) (startPoller fi0)
       = (Return, (startPoller fi0)\<lparr>notified := [Deleted]\<rparr>)
   \<and> pollIteration fi0 False (Inr (fi0\<lparr>fileSize := 5\<rparr>)) (startPoller fi0)
       = (Continue, (startPoller fi0)\<lparr>Size := 5, prevSize := 5, notified := [Truncated]\<rparr>)"
  using pollIteration_decision [of "fi0\<lparr>fileSize := 5\<rparr>" fi0 "startPoller fi0"]
  by (simp add: fi0_def startPoller_def SameFile_def)

text \<open>
  Claim C7 against the code: when \<open>os.Stat\<close> fails with an error other than not-found
  (here: permission denied), the monitoring task panics with it. It notifies nothing,
  and no error is handed to the session's tomb.
\<close>

theorem pollIteration_stat_error_panics:
  "pollIteration fi0 False (Inl (IOError ''permission denied'')) (startPoller fi0)
     = (Panic (IOError ''permission denied''), startPoller fi0)
   \<and> notified (pollLoop fi0 [(False, Inl (IOError ''permission denied''))] (startPoller fi0)) = []
   \<and> panicked (pollLoop fi0 [(False, Inl (IOError ''permission denied''))] (startPoller fi0))
       = Some (IOError ''permission denied'')"
  by (simp add: pollIteration_def startPoller_def)


section \<open>Reading complete lines\<close>

lemma takeWhile_line: "LF \<notin> set l \<Longrightarrow> takeWhile (\<lambda>c. c \<noteq> LF) (l @ LF # rest) = l"
  by (induction l) auto

lemma ReadSlice_line:
  assumes "LF \<notin> set l" and "length l < defaultBufSize"
  shows "ReadSlice (l @ LF # rest) fault = ((l @ [LF], None), rest)"
proof -
  define buf where "buf = take defaultBufSize (l @ LF # rest)"
  have b: "buf = l @ LF # take (defaultBufSize - Suc (length l)) rest"
    using assms(2) by (simp add: buf_def Suc_diff_Suc take_Cons')
  have m: "LF \<in> set buf" by (simp add: b)
  have w: "takeWhile (\<lambda>c. c \<noteq> LF) buf = l"
    unfolding b using assms(1) by (rule takeWhile_line)
  show ?thesis
    unfolding ReadSlice_def Let_def buf_def [symmetric] using m w by simp
qed

lemma ReadLine_line:
  assumes "LF \<notin> set l" and "length l < defaultBufSize" and "l = [] \<or> last l \<noteq> CR"
  shows "ReadLine (l @ LF # rest) fault = ((Some l, False, None), rest)"
proof -
  have nth: "l \<noteq> [] \<Longrightarrow> (l @ [LF]) ! (length l - Suc 0) = last l"
    by (simp add: nth_append last_conv_nth)
  show ?thesis
    using assms(3) nth ReadSlice_line [OF assms(1,2), of rest fault]
    by (cases "l = []") (simp_all add: ReadLine_def)
qed

lemma readLine_line:
  assumes "LF \<notin> set l" and "length l < defaultBufSize" and "l = [] \<or> last l \<noteq> CR"
  shows "readLine (l @ LF # rest) fault = ((Some l, None), rest)"
  by (simp add: readLine_def ReadLine_line [OF assms])

lemma readLine_crlf:
  assumes "LF \<notin> set l" and "Suc (length l) < defaultBufSize"
  shows "readLine (l @ CR # LF # rest) fault = ((Some l, None), rest)"
proof -
  have c: "CR \<noteq> LF" by (simp add: CR_def LF_def)
  have "LF \<notin> set (l @ [CR])" using assms(1) c by simp
  moreover have "length (l @ [CR]) < defaultBufSize" using assms(2) by simp
  ultimately have "ReadSlice ((l @ [CR]) @ LF # rest) fault = (((l @ [CR]) @ [LF], None), rest)"
    by (rule ReadSlice_line)
  then have s: "ReadSlice (l @ CR # LF # rest) fault = ((l @ [CR, LF], None), rest)" by simp
  have n: "(l @ [CR, LF]) ! length l = CR" by (simp add: nth_append)
  show ?thesis by (simp add: readLine_def ReadLine_def s n)
qed

lemma readLine_eof: "readLine [] None = ((None, Some EOF), [])"
  by (simp add: readLine_def ReadLine_def ReadSlice_def defaultBufSize_def)

lemma emitLine_whole:
  "MaxLineSize c \<le> 0 \<or> int (length l) \<le> MaxLineSize c \<Longrightarrow>
   emitLine c l tm = Some (Inr [\<lparr>Text = l, Time = tm\<rparr>])"
  by (auto simp: emitLine_def)

lemma run_add: "run (m + n) t = run n (run m t)"
  unfolding run_def by (subst add.commute) (simp add: funpow_add)

lemma run_Suc: "run (Suc n) t = run n (nextStep t)"
  by (simp add: run_def funpow_swap1)

lemma run_0: "run 0 t = t"
  by (simp add: run_def)

lemma iteration_line:
  assumes "pc t = Reading" and "\<not> dying t" and "unread t = l @ LF # rest" and "plain (cfg t) l"
  shows "run 3 t = t\<lparr>unread := rest, delivered := delivered t @ [\<lparr>Text = l, Time = now t\<rparr>]\<rparr>"
proof -
  have r: "readLine (unread t) (readFault t) = ((Some l, None), rest)"
    using assms(3,4) by (simp add: plain_def readLine_line)
  have e: "emitLine (cfg t) l (now t) = Some (Inr [\<lparr>Text = l, Time = now t\<rparr>])"
    using assms(4) by (simp add: plain_def emitLine_whole)
  define t1 where "t1 = t\<lparr>unread := rest, pc := Sending [\<lparr>Text = l, Time = now t\<rparr>]\<rparr>"
  define t2 where "t2 = t1\<lparr>delivered := delivered t @ [\<lparr>Text = l, Time = now t\<rparr>], pc := Checking\<rparr>"
  have s1: "nextStep t = t1"
    using assms(1) r e by (simp add: nextStep_def consumerRecv_def driverStep_def t1_def)
  have s2: "nextStep t1 = t2"
    by (simp add: nextStep_def consumerRecv_def t1_def t2_def)
  have s3: "nextStep t2 = t2\<lparr>pc := Reading\<rparr>"
    using assms(2) by (simp add: nextStep_def consumerRecv_def driverStep_def t1_def t2_def)
  have "run 3 t = nextStep (nextStep (nextStep t))"
    by (simp add: run_def eval_nat_numeral funpow_swap1)
  then show ?thesis using assms(1) by (simp add: s1 s2 s3) (simp add: t1_def t2_def)
qed

lemma fileOf_Cons: "fileOf (l # ls) = l @ LF # fileOf ls"
  by (simp add: fileOf_def)

lemma iterations_lines:
  assumes "pc t = Reading" and "\<not> dying t" and "unread t = fileOf ls @ rest"
      and "\<forall>l \<in> set ls. plain (cfg t) l"
  shows "run (3 * length ls) t =
           t\<lparr>unread := rest, delivered := delivered t @ map (\<lambda>l. \<lparr>Text = l, Time = now t\<rparr>) ls\<rparr>"
  using assms
proof (induction ls arbitrary: t)
  case Nil
  then show ?case by (simp add: run_0 fileOf_def)
next
  case (Cons l ls)
  define t1 where "t1 = t\<lparr>unread := fileOf ls @ rest, delivered := delivered t @ [\<lparr>Text = l, Time = now t\<rparr>]\<rparr>"
  have a: "run 3 t = t1"
    unfolding t1_def using Cons.prems by (intro iteration_line) (simp_all add: fileOf_Cons)
  have b: "run (3 * length ls) t1 =
         t1\<lparr>unread := rest, delivered := delivered t1 @ map (\<lambda>l. \<lparr>Text = l, Time = now t1\<rparr>) ls\<rparr>"
    using Cons.prems by (intro Cons.IH) (simp_all add: t1_def)
  have "run (3 * length (l # ls)) t = run (3 * length ls) (run 3 t)"
    using run_add [of 3 "3 * length ls" t] by simp
  then show ?case by (simp add: a b) (simp add: t1_def)
qed

lemma run_stable: "nextStep t = t \<Longrightarrow> run k t = t"
  by (induction k) (simp_all add: run_0 run_Suc)

lemma run_1: "run 1 t = nextStep t"
  by (simp add: run_def)

lemma seekTarget_minus_one: "Location c = - 1 \<Longrightarrow> seekTarget c = (0, 0)"
  by (simp add: seekTarget_def)

lemma start_mustExist:
  assumes "MustExist c" and "\<not> (ReOpen c \<and> \<not> Follow c)" and "fs filename = Inr content"
      and "seekTarget c = (0, 0)"
  shows "outcome (TailFile fs filename c) = Returned (Inr (opened fs filename c content))"
    and "run 2 (opened fs filename c content) = atReading fs filename c content"
proof -
  define t0 where "t0 = opened fs filename c content"
  show "outcome (TailFile fs filename c) = Returned (Inr (opened fs filename c content))"
    using assms(1,2,3) by (simp add: TailFile_def opened_def Let_def)
  have s1: "nextStep t0 = t0\<lparr>pc := Seeking\<rparr>"
    using assms(1)
    by (simp add: nextStep_def consumerRecv_def driverStep_def t0_def opened_def newTail_def)
  have s2: "nextStep (t0\<lparr>pc := Seeking\<rparr>) = atReading fs filename c content"
    using assms(4)
    by (simp add: nextStep_def consumerRecv_def driverStep_def t0_def opened_def newTail_def
        seekPos_def atReading_def)
  have "run 2 t0 = nextStep (nextStep t0)"
    by (simp add: run_def eval_nat_numeral funpow_swap1)
  then show "run 2 (opened fs filename c content) = atReading fs filename c content"
    by (simp add: s1 s2 t0_def [symmetric])
qed

lemma start_lazy:
  assumes "\<not> MustExist c" and "\<not> (ReOpen c \<and> \<not> Follow c)" and "fs filename = Inr content"
      and "seekTarget c = (0, 0)"
  shows "outcome (TailFile fs filename c) = Returned (Inr (newTail fs filename c))"
    and "run 3 (newTail fs filename c) = atReading fs filename c content"
proof -
  define t0 where "t0 = newTail fs filename c"
  show "outcome (TailFile fs filename c) = Returned (Inr (newTail fs filename c))"
    using assms(1,2) by (simp add: TailFile_def Let_def)
  have s1: "nextStep t0 = t0\<lparr>pc := Opening Initial\<rparr>"
    using assms(1)
    by (simp add: nextStep_def consumerRecv_def driverStep_def t0_def newTail_def reopenBegin_def)
  have s2: "nextStep (t0\<lparr>pc := Opening Initial\<rparr>)
              = t0\<lparr>fileH := Some 0, unread := content, pc := Seeking\<rparr>"
    using assms(3)
    by (simp add: nextStep_def consumerRecv_def driverStep_def t0_def newTail_def)
  have s3: "nextStep (t0\<lparr>fileH := Some 0, unread := content, pc := Seeking\<rparr>)
             = atReading fs filename c content"
    using assms(4)
    by (simp add: nextStep_def consumerRecv_def driverStep_def t0_def newTail_def
        seekPos_def atReading_def)
  have "run 3 t0 = nextStep (nextStep (nextStep t0))"
    by (simp add: run_def eval_nat_numeral funpow_swap1)
  then show "run 3 (newTail fs filename c) = atReading fs filename c content"
    by (simp add: s1 s2 s3 t0_def [symmetric])
qed

lemma start_to_Reading:
  assumes "\<not> (ReOpen c \<and> \<not> Follow c)" and "fs filename = Inr content" and "seekTarget c = (0, 0)"
  shows "\<exists>t0 n. outcome (TailFile fs filename c) = Returned (Inr t0)
           \<and> run n t0 = atReading fs filename c content"
proof (cases "MustExist c")
  case True
  show ?thesis
    using start_mustExist [of c fs filename content] True assms by blast
next
  case False
  show ?thesis
    using start_lazy [of c fs filename content] False assms by blast
qed

lemma Reading_to_atEnd:
  assumes "\<forall>l \<in> set ls. plain c l"
  shows "run (3 * length ls) (atReading fs filename c (fileOf ls)) = atEnd fs filename c ls"
proof -
  define tR where "tR = atReading fs filename c (fileOf ls)"
  have "run (3 * length ls) tR = tR\<lparr>unread := [], delivered := delivered tR @ map (\<lambda>l. \<lparr>Text = l, Time = now tR\<rparr>) ls\<rparr>"
    using assms
    by (intro iterations_lines) (simp_all add: tR_def atReading_def newTail_def)
  then show ?thesis
    by (simp add: tR_def atReading_def atEnd_def newTail_def)
qed

lemma atEnd_follow:
  "Follow c \<Longrightarrow> nextStep (atEnd fs filename c ls) = atWaiting fs filename c ls"
  by (simp add: nextStep_def consumerRecv_def driverStep_def readLine_eof
          atWaiting_def atEnd_def newTail_def)

lemma atWaiting_stable: "nextStep (atWaiting fs filename c ls) = atWaiting fs filename c ls"
  by (simp add: nextStep_def consumerRecv_def driverStep_def atWaiting_def atEnd_def newTail_def)

lemma atEnd_once:
  "\<not> Follow c \<Longrightarrow> nextStep (atEnd fs filename c ls) = atExit fs filename c ls"
  by (simp add: nextStep_def consumerRecv_def driverStep_def readLine_eof
          exitDriver_def closeTail_def Done_def atExit_def atEnd_def newTail_def)

lemma atExit_stable: "nextStep (atExit fs filename c ls) = atExit fs filename c ls"
  by (simp add: nextStep_def consumerRecv_def driverStep_def atExit_def atEnd_def newTail_def)

lemma Text_atEnd: "map Text (delivered (atEnd fs filename c ls)) = ls"
  by (simp add: atEnd_def comp_def)

lemma atFinal_stable: "nextStep (atFinal fs filename c ls) = atFinal fs filename c ls"
  by (simp add: atFinal_def atWaiting_stable atExit_stable)

lemma atFinal_props:
  "map Text (delivered (atFinal fs filename c ls)) = ls
   \<and> (if Follow c
       then pc (atFinal fs filename c ls) = Waiting \<and> linesClosed (atFinal fs filename c ls) = 0
       else pc (atFinal fs filename c ls) = Exited \<and> linesClosed (atFinal fs filename c ls) = 1
            \<and> Wait (atFinal fs filename c ls) = Some None)"
proof -
  have w: "delivered (atWaiting fs filename c ls) = delivered (atEnd fs filename c ls)"
    "pc (atWaiting fs filename c ls) = Waiting" "linesClosed (atWaiting fs filename c ls) = 0"
    by (simp_all add: atWaiting_def atEnd_def newTail_def)
  have x: "delivered (atExit fs filename c ls) = delivered (atEnd fs filename c ls)"
    "pc (atExit fs filename c ls) = Exited" "linesClosed (atExit fs filename c ls) = 1"
    "Wait (atExit fs filename c ls) = Some None"
    by (simp_all add: atExit_def atEnd_def newTail_def Wait_def)
  show ?thesis
    by (simp add: atFinal_def w x Text_atEnd)
qed

lemma Reading_to_atFinal:
  assumes "\<forall>l \<in> set ls. plain c l"
  shows "run (3 * length ls + 1) (atReading fs filename c (fileOf ls)) = atFinal fs filename c ls"
proof -
  have "run (3 * length ls + 1) (atReading fs filename c (fileOf ls))
        = run 1 (run (3 * length ls) (atReading fs filename c (fileOf ls)))"
    by (rule run_add)
  also have "\<dots> = nextStep (atEnd fs filename c ls)"
    by (simp only: Reading_to_atEnd [OF assms] run_1)
  also have "\<dots> = atFinal fs filename c ls"
    by (cases "Follow c") (simp_all add: atFinal_def atEnd_follow atEnd_once)
  finally show ?thesis .
qed

lemma run_to_atFinal:
  assumes "run n0 t0 = atReading fs filename c (fileOf ls)" and pl: "\<forall>l \<in> set ls. plain c l"
     and "n0 + (3 * length ls + 1) \<le> m"
  shows "run m t0 = atFinal fs filename c ls"
proof -
  obtain k where m: "m = n0 + (3 * length ls + 1) + k" using assms(3) le_Suc_ex by blast
  have "run m t0 = run k (run (3 * length ls + 1) (run n0 t0))"
    unfolding m by (simp only: run_add)
  also have "\<dots> = run k (atFinal fs filename c ls)"
    by (simp only: assms(1) Reading_to_atFinal [OF pl])
  also have "\<dots> = atFinal fs filename c ls"
    by (rule run_stable [OF atFinal_stable])
  finally show ?thesis .
qed

text \<open>
  Claim C1, amended. Let the file consist of complete lines, each followed by a newline,
  each shorter than the reader's buffer of 4096 bytes, none ending in a carriage return,
  and none longer than \<open>MaxLineSize\<close> when that is positive; let \<open>Location\<close> be \<open>-1\<close>
  (reading starts at byte 0). With a consumer that receives what is offered, the texts
  of the lines delivered are, from some step on and for ever, exactly the lines of the
  file, in file order and without their newlines. Without \<open>Follow\<close> the driver has
  then returned, closed the channel once and recorded no error; with \<open>Follow\<close> it
  waits for changes with the channel open.
\<close>

theorem complete_lines_in_order:
  assumes "\<not> (ReOpen c \<and> \<not> Follow c)"
      and "fs filename = Inr (fileOf ls)"
      and "Location c = - 1"
      and "\<forall>l \<in> set ls. LF \<notin> set l \<and> length l < defaultBufSize \<and> (l = [] \<or> last l \<noteq> CR)
             \<and> (MaxLineSize c \<le> 0 \<or> int (length l) \<le> MaxLineSize c)"
  shows "\<exists>t0. outcome (TailFile fs filename c) = Returned (Inr t0)
     \<and> (\<exists>n. \<forall>m\<ge>n. map Text (delivered (run m t0)) = ls
            \<and> (if Follow c then pc (run m t0) = Waiting \<and> linesClosed (run m t0) = 0
                else pc (run m t0) = Exited \<and> linesClosed (run m t0) = 1
                     \<and> Wait (run m t0) = Some None))"
proof -
  have pl: "\<forall>l \<in> set ls. plain c l" unfolding plain_def by (rule assms(4))
  obtain t0 n0 where o: "outcome (TailFile fs filename c) = Returned (Inr t0)"
    and r0: "run n0 t0 = atReading fs filename c (fileOf ls)"
    using start_to_Reading [of c fs filename "fileOf ls"] assms(1,2) seekTarget_minus_one [OF assms(3)]
    by blast
  define N where "N = n0 + (3 * length ls + 1)"
  have fin: "run m t0 = atFinal fs filename c ls" if "N \<le> m" for m
    using that unfolding N_def by (rule run_to_atFinal [OF r0 pl])
  show ?thesis
  proof (rule exI [of _ t0], rule conjI, rule o, rule exI [of _ N], intro allI impI)
    fix m assume "N \<le> m"
    then have e: "run m t0 = atFinal fs filename c ls" by (rule fin)
    show "map Text (delivered (run m t0)) = ls
            \<and> (if Follow c then pc (run m t0) = Waiting \<and> linesClosed (run m t0) = 0
                else pc (run m t0) = Exited \<and> linesClosed (run m t0) = 1
                     \<and> Wait (run m t0) = Some None)"
      unfolding e by (rule atFinal_props)
  qed
qed

text \<open>Witness for the amended C1: the file \<open>hello\<close>, \<open>world\<close>, read once.\<close>

theorem complete_lines_in_order_witness:
  "\<exists>t0. outcome (TailFile (fsWith ''f'' (fileOf [''hello'', ''world''])) ''f'' cfgOnce)
            = Returned (Inr t0)
     \<and> (\<exists>n. \<forall>m\<ge>n. map Text (delivered (run m t0)) = [''hello'', ''world'']
            \<and> pc (run m t0) = Exited \<and> linesClosed (run m t0) = 1
            \<and> Wait (run m t0) = Some None)"
proof -
  have h1: "\<not> (ReOpen cfgOnce \<and> \<not> Follow cfgOnce)" by (simp add: cfgOnce_def)
  have h2: "fsWith ''f'' (fileOf [''hello'', ''world'']) ''f'' = Inr (fileOf [''hello'', ''world''])"
    by (simp add: fsWith_def)
  have h3: "Location cfgOnce = - 1" by (simp add: cfgOnce_def)
  have h4: "\<forall>l \<in> set [''hello'', ''world'']. LF \<notin> set l \<and> length l < defaultBufSize
             \<and> (l = [] \<or> last l \<noteq> CR)
             \<and> (MaxLineSize cfgOnce \<le> 0 \<or> int (length l) \<le> MaxLineSize cfgOnce)"
    by (simp add: LF_def CR_def defaultBufSize_def cfgOnce_def)
  have f: "\<not> Follow cfgOnce" by (simp add: cfgOnce_def)
  show ?thesis
    using complete_lines_in_order
            [of cfgOnce "fsWith ''f'' (fileOf [''hello'', ''world''])" "''f''" "[''hello'', ''world'']",
             OF h1 h2 h3 h4] f
    by simp
qed

lemma iteration_crlf:
  assumes "pc t = Reading" and "\<not> dying t" and "unread t = l @ CR # LF # rest"
      and "LF \<notin> set l" and "Suc (length l) < defaultBufSize"
      and "MaxLineSize (cfg t) \<le> 0 \<or> int (length l) \<le> MaxLineSize (cfg t)"
  shows "run 3 t = t\<lparr>unread := rest, delivered := delivered t @ [\<lparr>Text = l, Time = now t\<rparr>]\<rparr>"
proof -
  have r: "readLine (unread t) (readFault t) = ((Some l, None), rest)"
    using assms(3,4,5) by (simp add: readLine_crlf)
  have e: "emitLine (cfg t) l (now t) = Some (Inr [\<lparr>Text = l, Time = now t\<rparr>])"
    using assms(6) by (rule emitLine_whole)
  define t1 where "t1 = t\<lparr>unread := rest, pc := Sending [\<lparr>Text = l, Time = now t\<rparr>]\<rparr>"
  define t2 where "t2 = t1\<lparr>delivered := delivered t @ [\<lparr>Text = l, Time = now t\<rparr>], pc := Checking\<rparr>"
  have s1: "nextStep t = t1"
    using assms(1) r e by (simp add: nextStep_def consumerRecv_def driverStep_def t1_def)
  have s2: "nextStep t1 = t2"
    by (simp add: nextStep_def consumerRecv_def t1_def t2_def)
  have s3: "nextStep t2 = t2\<lparr>pc := Reading\<rparr>"
    using assms(2) by (simp add: nextStep_def consumerRecv_def driverStep_def t1_def t2_def)
  have "run 3 t = nextStep (nextStep (nextStep t))"
    by (simp add: run_def eval_nat_numeral funpow_swap1)
  then show ?thesis using assms(1) by (simp add: s1 s2 s3) (simp add: t1_def t2_def)
qed

text \<open>
  Claim C1, as stated, fails: the file of the single complete line \<open>a\<close> followed by a
  carriage return (bytes \<open>a\<close>, CR, LF), read from the start without splitting, yields the
  line \<open>a\<close>, not the line verbatim; then the driver has returned.
\<close>

theorem complete_lines_counterexample:
  "fileOf [[CHR ''a'', CR]] = [CHR ''a'', CR, LF]
   \<and> outcome (TailFile fsCR ''f'' cfgOnce) = Returned (Inr (opened fsCR ''f'' cfgOnce [CHR ''a'', CR, LF]))
   \<and> map Text (delivered (run 6 (opened fsCR ''f'' cfgOnce [CHR ''a'', CR, LF]))) = [''a'']
   \<and> pc (run 6 (opened fsCR ''f'' cfgOnce [CHR ''a'', CR, LF])) = Exited
   \<and> map Text (delivered (run 6 (opened fsCR ''f'' cfgOnce [CHR ''a'', CR, LF]))) \<noteq> [[CHR ''a'', CR]]"
proof -
  define content where "content = [CHR ''a'', CR, LF]"
  have fo: "fileOf [[CHR ''a'', CR]] = content" by (simp add: fileOf_def content_def)
  have v: "\<not> (ReOpen cfgOnce \<and> \<not> Follow cfgOnce)" "MustExist cfgOnce" "\<not> Follow cfgOnce"
    "seekTarget cfgOnce = (0, 0)" "MaxLineSize cfgOnce \<le> 0"
    by (simp_all add: cfgOnce_def seekTarget_def)
  have fs: "fsCR ''f'' = Inr content" by (simp add: fsCR_def fsWith_def fo)
  have o: "outcome (TailFile fsCR ''f'' cfgOnce) = Returned (Inr (opened fsCR ''f'' cfgOnce content))"
    using v fs by (intro start_mustExist(1)) simp_all
  have a: "run 2 (opened fsCR ''f'' cfgOnce content) = atReading fsCR ''f'' cfgOnce content"
    using v fs by (intro start_mustExist(2)) simp_all
  have b: "run 3 (atReading fsCR ''f'' cfgOnce content) = atEnd fsCR ''f'' cfgOnce [''a'']"
  proof -
    have "run 3 (atReading fsCR ''f'' cfgOnce content)
        = (atReading fsCR ''f'' cfgOnce content)\<lparr>unread := [],
             delivered := delivered (atReading fsCR ''f'' cfgOnce content)
                @ [\<lparr>Text = ''a'', Time = now (atReading fsCR ''f'' cfgOnce content)\<rparr>]\<rparr>"
      using v(5)
      by (intro iteration_crlf)
         (simp_all add: atReading_def newTail_def content_def LF_def defaultBufSize_def)
    then show ?thesis by (simp add: atReading_def atEnd_def newTail_def)
  qed
  have c: "nextStep (atEnd fsCR ''f'' cfgOnce [''a'']) = atExit fsCR ''f'' cfgOnce [''a'']"
    using v(3) by (rule atEnd_once)
  have "run 6 (opened fsCR ''f'' cfgOnce content)
        = run 1 (run 3 (run 2 (opened fsCR ''f'' cfgOnce content)))"
    using run_add [of 2 4 "opened fsCR ''f'' cfgOnce content"]
          run_add [of 3 1 "run 2 (opened fsCR ''f'' cfgOnce content)"] by simp
  then have r: "run 6 (opened fsCR ''f'' cfgOnce content) = atExit fsCR ''f'' cfgOnce [''a'']"
    by (simp only: a b run_1 c)
  have d: "map Text (delivered (atExit fsCR ''f'' cfgOnce [''a''])) = [''a'']"
       "pc (atExit fsCR ''f'' cfgOnce [''a'']) = Exited"
    by (simp_all add: atExit_def atEnd_def)
  show ?thesis
    using fo o r d unfolding content_def by simp
qed


section \<open>Cancellation and closing\<close>

lemma emitLine_total: "\<exists>ls. emitLine c line tm = Some (Inr ls)"
proof (cases "MaxLineSize c > 0 \<and> int (length line) > MaxLineSize c")
  case True
  then show ?thesis by (simp add: emitLine_chunks)
next
  case False
  then show ?thesis by (auto simp: emitLine_def)
qed

lemma sound_driver_simple:
  assumes "sound t" and "t' \<in> set (driverStep t)" and "pc t \<noteq> Reading"
  shows "sound t'"
proof (cases "pc t")
  case AtStart
  then show ?thesis using assms
    by (auto simp: driverStep_def sound_def exitDriver_def closeTail_def Done_def Kill_def reopenBegin_def split: if_splits)
next
  case (Opening who)
  then show ?thesis using assms
    by (auto simp: driverStep_def sound_def exitDriver_def closeTail_def Done_def Kill_def Let_def 
        split: if_splits sum.splits caller.splits option.splits)
next
  case (AwaitExists who)
  then show ?thesis using assms
    by (auto simp: driverStep_def sound_def exitDriver_def closeTail_def Done_def Kill_def  split: if_splits sum.splits)
next
  case Seeking
  obtain whence offset where st: "seekTarget (cfg t) = (whence, offset)"
    by (cases "seekTarget (cfg t)")
  show ?thesis using assms Seeking st
    by (cases "seekFault t"; cases "seekPos (length (unread t)) whence offset")
       (auto simp: driverStep_def sound_def exitDriver_def closeTail_def Done_def Kill_def
        split: option.splits)
next
  case Waiting
  then show ?thesis using assms
    by (auto simp: driverStep_def sound_def exitDriver_def closeTail_def Done_def Kill_def reopenBegin_def 
        split: if_splits option.splits)
next
  case Checking
  then show ?thesis using assms
    by (auto simp: driverStep_def sound_def exitDriver_def closeTail_def Done_def Kill_def  split: if_splits)
qed (use assms in \<open>simp_all add: driverStep_def\<close>)

lemma sound_driver_Reading:
  assumes "sound t" and "t' \<in> set (driverStep t)" and "pc t = Reading"
  shows "sound t'"
proof -
  obtain line err rest where rl: "readLine (unread t) (readFault t) = ((line, err), rest)"
    by (cases "readLine (unread t) (readFault t)") auto
  show ?thesis
  proof (cases err)
    case None
    show ?thesis
    proof (cases line)
      case None
      then show ?thesis using assms rl \<open>err = None\<close>
        by (auto simp: driverStep_def sound_def)
    next
      case (Some l)
      obtain ls where e: "emitLine (cfg t) l (now t) = Some (Inr ls)"
        using emitLine_total by blast
      show ?thesis using assms rl \<open>err = None\<close> Some e
        by (auto simp: driverStep_def sound_def split: if_splits)
    qed
  next
    case (Some e)
    then show ?thesis using assms rl
      by (auto simp: driverStep_def sound_def exitDriver_def closeTail_def Done_def Kill_def
          split: if_splits option.splits)
  qed
qed

lemma sound_driver: "sound t \<Longrightarrow> t' \<in> set (driverStep t) \<Longrightarrow> sound t'"
  using sound_driver_simple sound_driver_Reading by blast

lemma sound_consumer: "sound t \<Longrightarrow> consumerRecv t = Some t' \<Longrightarrow> sound t'"
  by (auto simp: consumerRecv_def sound_def split: pc.splits list.splits if_splits)

lemma sound_env: "sound t \<Longrightarrow> sound (envStep ev t)"
  by (cases ev) (auto simp: envStep_def sound_def Kill_def split: pc.splits)

lemma sound_start: "outcome (TailFile fs filename config) = Returned (Inr t) \<Longrightarrow> sound t"
  by (auto simp: TailFile_def newTail_def sound_def Let_def split: if_splits sum.splits)

lemma reachable_sound: "reachable t \<Longrightarrow> sound t"
  by (induction rule: reachable.induct)
     (auto intro: sound_start sound_driver sound_consumer sound_env)

lemma reachable_nextStep: "reachable t \<Longrightarrow> reachable (nextStep t)"
proof -
  assume r: "reachable t"
  show ?thesis
  proof (cases "consumerRecv t")
    case (Some t')
    then show ?thesis using r by (simp add: nextStep_def reachable.consumer)
  next
    case None
    show ?thesis
    proof (cases "driverStep t")
      case Nil
      then show ?thesis using r None by (simp add: nextStep_def)
    next
      case (Cons t' ts)
      then have "t' \<in> set (driverStep t)" by simp
      then have "reachable t'" using r by (rule reachable.driver [rotated])
      then show ?thesis using None Cons by (simp add: nextStep_def)
    qed
  qed
qed

lemma reachable_run: "reachable t \<Longrightarrow> reachable (run n t)"
  by (induction n arbitrary: t) (simp_all add: run_0 run_Suc reachable_nextStep)

lemma sending_drains:
  "pc t = Sending ls \<Longrightarrow> ls \<noteq> [] \<Longrightarrow>
   run (length ls) t = t\<lparr>delivered := delivered t @ ls, pc := Checking\<rparr>"
proof (induction ls arbitrary: t)
  case Nil
  then show ?case by simp
next
  case (Cons l ls)
  show ?case
  proof (cases "ls = []")
    case True
    then show ?thesis using Cons.prems
      by (simp add: run_Suc run_0 nextStep_def consumerRecv_def)
  next
    case False
    define t1 where "t1 = t\<lparr>delivered := delivered t @ [l], pc := Sending ls\<rparr>"
    have s: "nextStep t = t1"
      using Cons.prems False by (simp add: nextStep_def consumerRecv_def t1_def)
    have "run (length ls) t1 = t1\<lparr>delivered := delivered t1 @ ls, pc := Checking\<rparr>"
      using False by (intro Cons.IH) (simp_all add: t1_def)
    then show ?thesis by (simp add: run_Suc s) (simp add: t1_def)
  qed
qed

lemma Kill_None_idem: "Kill None (Kill None t) = Kill None t"
  by (cases "reason t") (simp_all add: Kill_def)

lemma exitDriver_open:
  "linesClosed t = 0 \<Longrightarrow>
   pc (exitDriver None t) = Exited \<and> Wait (exitDriver None t) = Some (reason t)
   \<and> linesClosed (exitDriver None t) = 1"
  by (simp add: exitDriver_def closeTail_def Done_def Wait_def)

lemma sending_stopped_exits:
  assumes "pc t = Sending ls" and "ls \<noteq> []" and "dying t" and "linesClosed t = 0"
  shows "pc (run (length ls + 1) t) = Exited \<and> Wait (run (length ls + 1) t) = Some (reason t)
         \<and> linesClosed (run (length ls + 1) t) = 1"
proof -
  define t1 where "t1 = t\<lparr>delivered := delivered t @ ls, pc := Checking\<rparr>"
  have a: "run (length ls) t = t1" unfolding t1_def using assms(1,2) by (rule sending_drains)
  have b: "nextStep t1 = exitDriver None t1"
    using assms(3) by (simp add: nextStep_def consumerRecv_def driverStep_def t1_def)
  have "run (length ls + 1) t = run 1 (run (length ls) t)" by (rule run_add)
  then have r: "run (length ls + 1) t = exitDriver None t1" by (simp only: a run_1 b)
  have "linesClosed t1 = 0" "reason t1 = reason t" using assms(4) by (simp_all add: t1_def)
  then show ?thesis using exitDriver_open [of t1] r by simp
qed

text \<open>
  What the code keeps of the cancellation contract, in every state a session can reach.
  \<open>Stop\<close> closes nothing itself and a second \<open>Stop\<close> changes nothing. A driver that is
  sending a line is blocked; once stop was requested it returns right after the consumer
  has received the fragments in flight. At the check after a loop iteration a requested
  stop makes the driver close and return, and in the wait at the end of the file
  returning is one of the ready cases; \<open>Wait\<close> then yields the recorded reason. The
  channel \<open>Lines\<close> is closed exactly once, when the driver has returned and not before;
  so is the file handle it holds, and every earlier one; the driver never panics.
\<close>

theorem stop_and_close_once:
  assumes "reachable t"
  shows "envStep StopCalled (envStep StopCalled t) = envStep StopCalled t
       \<and> linesClosed (envStep StopCalled t) = linesClosed t
       \<and> fileH (envStep StopCalled t) = fileH t
       \<and> retired (envStep StopCalled t) = retired t
       \<and> pc (envStep StopCalled t) = pc t
       \<and> (\<forall>ls. pc t = Sending ls \<longrightarrow> driverStep t = []
             \<and> (dying t \<longrightarrow> pc (run (length ls + 1) t) = Exited
                   \<and> Wait (run (length ls + 1) t) = Some (reason t)
                   \<and> linesClosed (run (length ls + 1) t) = 1))
       \<and> (pc t = Checking \<and> dying t \<longrightarrow>
             (\<exists>t'. driverStep t = [t'] \<and> pc t' = Exited \<and> Wait t' = Some (reason t)
                    \<and> linesClosed t' = 1))
       \<and> (pc t = Waiting \<and> dying t \<longrightarrow>
             (\<exists>t' \<in> set (driverStep t). pc t' = Exited \<and> Wait t' = Some (reason t)
                    \<and> linesClosed t' = 1))
       \<and> linesClosed t \<le> 1 \<and> (linesClosed t = 1 \<longleftrightarrow> pc t = Exited)
       \<and> (dead t \<longleftrightarrow> pc t = Exited)
       \<and> (pc t = Exited \<longrightarrow> fileH t = None \<or> fileH t = Some 1)
       \<and> (\<forall>n \<in> set (retired t). n = 1)
       \<and> (\<forall>msg. pc t \<noteq> Crashed msg)"
proof -
  have s: "sound t" using assms by (rule reachable_sound)
  have k: "envStep StopCalled (envStep StopCalled t) = envStep StopCalled t
       \<and> linesClosed (envStep StopCalled t) = linesClosed t
       \<and> fileH (envStep StopCalled t) = fileH t
       \<and> retired (envStep StopCalled t) = retired t
       \<and> pc (envStep StopCalled t) = pc t"
    by (simp add: envStep_def Kill_None_idem) (simp add: Kill_def)
  have snd: "\<forall>ls. pc t = Sending ls \<longrightarrow> driverStep t = []
             \<and> (dying t \<longrightarrow> pc (run (length ls + 1) t) = Exited
                   \<and> Wait (run (length ls + 1) t) = Some (reason t)
                   \<and> linesClosed (run (length ls + 1) t) = 1)"
  proof (intro allI impI conjI)
    fix ls assume p: "pc t = Sending ls"
    show "driverStep t = []" using p by (simp add: driverStep_def)
    assume d: "dying t"
    have "ls \<noteq> []" "linesClosed t = 0" using s p by (simp_all add: sound_def)
    then have e: "pc (run (length ls + 1) t) = Exited \<and> Wait (run (length ls + 1) t) = Some (reason t)
         \<and> linesClosed (run (length ls + 1) t) = 1"
      using p d by (intro sending_stopped_exits)
    show "pc (run (length ls + 1) t) = Exited" using e by simp
    show "Wait (run (length ls + 1) t) = Some (reason t)" using e by simp
    show "linesClosed (run (length ls + 1) t) = 1" using e by simp
  qed
  have chk: "pc t = Checking \<and> dying t \<longrightarrow>
             (\<exists>t'. driverStep t = [t'] \<and> pc t' = Exited \<and> Wait t' = Some (reason t)
                    \<and> linesClosed t' = 1)"
  proof
    assume a: "pc t = Checking \<and> dying t"
    then have "linesClosed t = 0" using s by (simp add: sound_def)
    then have "pc (exitDriver None t) = Exited \<and> Wait (exitDriver None t) = Some (reason t)
       \<and> linesClosed (exitDriver None t) = 1" by (rule exitDriver_open)
    moreover have "driverStep t = [exitDriver None t]" using a by (simp add: driverStep_def)
    ultimately show "\<exists>t'. driverStep t = [t'] \<and> pc t' = Exited \<and> Wait t' = Some (reason t)
                    \<and> linesClosed t' = 1" by simp
  qed
  have wt: "pc t = Waiting \<and> dying t \<longrightarrow>
             (\<exists>t' \<in> set (driverStep t). pc t' = Exited \<and> Wait t' = Some (reason t)
                    \<and> linesClosed t' = 1)"
  proof
    assume a: "pc t = Waiting \<and> dying t"
    then have "linesClosed t = 0" using s by (simp add: sound_def)
    then have "pc (exitDriver None t) = Exited \<and> Wait (exitDriver None t) = Some (reason t)
       \<and> linesClosed (exitDriver None t) = 1" by (rule exitDriver_open)
    moreover have "exitDriver None t \<in> set (driverStep t)" using a by (simp add: driverStep_def)
    ultimately show "\<exists>t' \<in> set (driverStep t). pc t' = Exited \<and> Wait t' = Some (reason t)
                    \<and> linesClosed t' = 1" by blast
  qed
  have inv: "linesClosed t \<le> 1 \<and> (linesClosed t = 1 \<longleftrightarrow> pc t = Exited)
       \<and> (dead t \<longleftrightarrow> pc t = Exited)
       \<and> (pc t = Exited \<longrightarrow> fileH t = None \<or> fileH t = Some 1)
       \<and> (\<forall>n \<in> set (retired t). n = 1)
       \<and> (\<forall>msg. pc t \<noteq> Crashed msg)"
    using s by (cases "pc t") (auto simp: sound_def)
  show ?thesis using k snd chk wt inv by (intro conjI) simp_all
qed

lemma cfgOnce_facts:
  "\<not> (ReOpen cfgOnce \<and> \<not> Follow cfgOnce)" "MustExist cfgOnce" "\<not> Follow cfgOnce"
  "seekTarget cfgOnce = (0, 0)" "MaxLineSize cfgOnce \<le> 0"
  by (simp_all add: cfgOnce_def seekTarget_def)

lemma fsA_f: "fsA ''f'' = Inr (fileOf [''a''])"
  by (simp add: fsA_def fsWith_def)

lemma readLine_a: "readLine (fileOf [''a'']) fault = ((Some ''a'', None), [])"
  using readLine_line [of "''a''" "[]" fault]
  by (simp add: fileOf_def LF_def CR_def defaultBufSize_def)

lemma start_fsA:
  "outcome (TailFile fsA ''f'' cfgOnce) = Returned (Inr (opened fsA ''f'' cfgOnce (fileOf [''a''])))"
  using start_mustExist(1) [of cfgOnce fsA "''f''" "fileOf [''a'']"] cfgOnce_facts fsA_f by simp

lemma step_to_sendingA: "nextStep (atReading fsA ''f'' cfgOnce (fileOf [''a''])) = sendingA"
  using emitLine_whole [of cfgOnce "''a''" 0] cfgOnce_facts(5)
  by (simp add: nextStep_def consumerRecv_def driverStep_def readLine_a sendingA_def
      atReading_def newTail_def)

lemma run3_sendingA: "run 3 (opened fsA ''f'' cfgOnce (fileOf [''a''])) = sendingA"
proof -
  have "run 3 (opened fsA ''f'' cfgOnce (fileOf [''a'']))
        = run 1 (run 2 (opened fsA ''f'' cfgOnce (fileOf [''a''])))"
    using run_add [of 2 1 "opened fsA ''f'' cfgOnce (fileOf [''a''])"] by simp
  also have "run 2 (opened fsA ''f'' cfgOnce (fileOf [''a''])) = atReading fsA ''f'' cfgOnce (fileOf [''a''])"
    using start_mustExist(2) [of cfgOnce fsA "''f''" "fileOf [''a'']"] cfgOnce_facts fsA_f by simp
  finally show ?thesis by (simp only: run_1 step_to_sendingA)
qed

lemma reachable_sendingA: "reachable sendingA"
proof -
  have "reachable (opened fsA ''f'' cfgOnce (fileOf [''a'']))"
    using start_fsA by (rule reachable.start)
  then have "reachable (run 3 (opened fsA ''f'' cfgOnce (fileOf [''a''])))"
    by (rule reachable_run)
  then show ?thesis by (simp only: run3_sendingA)
qed

text \<open>The same at a concrete state: the driver is sending the line \<open>a\<close> when \<open>Stop\<close> is called.\<close>

theorem stop_and_close_once_witness:
  "reachable (envStep StopCalled sendingA)
   \<and> pc (envStep StopCalled sendingA) = Sending [\<lparr>Text = ''a'', Time = 0\<rparr>]
   \<and> dying (envStep StopCalled sendingA)
   \<and> driverStep (envStep StopCalled sendingA) = []
   \<and> pc (run 2 (envStep StopCalled sendingA)) = Exited
   \<and> linesClosed (run 2 (envStep StopCalled sendingA)) = 1
   \<and> linesClosed (envStep StopCalled sendingA) = 0"
proof -
  have r: "reachable (envStep StopCalled sendingA)"
    using reachable_sendingA by (rule reachable.env)
  have p: "pc (envStep StopCalled sendingA) = Sending [\<lparr>Text = ''a'', Time = 0\<rparr>]"
    and d: "dying (envStep StopCalled sendingA)"
    and l: "linesClosed (envStep StopCalled sendingA) = 0"
    by (simp_all add: envStep_def Kill_def sendingA_def atReading_def newTail_def)
  show ?thesis
    using stop_and_close_once [OF r] r p d l by (simp add: eval_nat_numeral)
qed

lemma drive_steps:
  "drive (opened fsA ''f'' cfgOnce (fileOf [''a''])) = (opened fsA ''f'' cfgOnce (fileOf [''a'']))\<lparr>pc := Seeking\<rparr>"
  "drive ((opened fsA ''f'' cfgOnce (fileOf [''a'']))\<lparr>pc := Seeking\<rparr>) = atReading fsA ''f'' cfgOnce (fileOf [''a''])"
  "drive (atReading fsA ''f'' cfgOnce (fileOf [''a''])) = sendingA"
proof -
  show "drive (opened fsA ''f'' cfgOnce (fileOf [''a''])) = (opened fsA ''f'' cfgOnce (fileOf [''a'']))\<lparr>pc := Seeking\<rparr>"
    using cfgOnce_facts(2) by (simp add: drive_def driverStep_def opened_def newTail_def)
  show "drive ((opened fsA ''f'' cfgOnce (fileOf [''a'']))\<lparr>pc := Seeking\<rparr>) = atReading fsA ''f'' cfgOnce (fileOf [''a''])"
    using cfgOnce_facts(4)
    by (simp add: drive_def driverStep_def opened_def newTail_def seekPos_def atReading_def)
  show "drive (atReading fsA ''f'' cfgOnce (fileOf [''a''])) = sendingA"
    using emitLine_whole [of cfgOnce "''a''" 0] cfgOnce_facts(5)
    by (simp add: drive_def driverStep_def readLine_a sendingA_def atReading_def newTail_def)
qed

text \<open>
  Claim C9 against the code. On the file with the single line \<open>a\<close>, the driver comes to
  send that line after three steps. When \<open>Stop\<close> is called then and the consumer does not
  receive, the driver has no step to take: it stays where it is, has not returned, and
  \<open>Wait\<close>, hence \<open>Stop\<close>, does not return.
\<close>

theorem stop_blocked_while_sending:
  "outcome (TailFile fsA ''f'' cfgOnce) = Returned (Inr (opened fsA ''f'' cfgOnce (fileOf [''a''])))
   \<and> (drive ^^ 3) (opened fsA ''f'' cfgOnce (fileOf [''a''])) = sendingA
   \<and> dying (envStep StopCalled sendingA)
   \<and> driverStep (envStep StopCalled sendingA) = []
   \<and> drive (envStep StopCalled sendingA) = envStep StopCalled sendingA
   \<and> pc (envStep StopCalled sendingA) \<noteq> Exited
   \<and> Wait (envStep StopCalled sendingA) = None"
proof -
  have a: "(drive ^^ 3) (opened fsA ''f'' cfgOnce (fileOf [''a''])) = sendingA"
    by (simp add: eval_nat_numeral funpow_swap1 drive_steps)
  have b: "driverStep (envStep StopCalled sendingA) = []"
    by (simp add: driverStep_def envStep_def Kill_def sendingA_def)
  have c: "dying (envStep StopCalled sendingA)" "pc (envStep StopCalled sendingA) \<noteq> Exited"
    "Wait (envStep StopCalled sendingA) = None"
    by (simp_all add: envStep_def Kill_def Wait_def sendingA_def atReading_def newTail_def)
  have d: "drive (envStep StopCalled sendingA) = envStep StopCalled sendingA"
    by (simp add: drive_def b)
  show ?thesis using start_fsA a b c d by simp
qed

lemma cfgEnd_facts:
  "\<not> (ReOpen cfgEnd \<and> \<not> Follow cfgEnd)" "MustExist cfgEnd" "Follow cfgEnd"
  "seekTarget cfgEnd = (0, 0)" "MaxLineSize cfgEnd \<le> 0" "Location cfgEnd = 0"
  by (simp_all add: cfgEnd_def seekTarget_def)

text \<open>
  Claim C2 against the code. With \<open>Location = 0\<close> the seek target is byte 0 from the
  start of the file (\<open>whence = 0\<close>, \<open>offset = 0\<close>), not its end: on the file \<open>hello\<close>,
  \<open>world\<close> the session delivers both lines that were there before it started, and then
  waits for changes.
\<close>

theorem location_zero_replays:
  "Location cfgEnd = 0 \<and> seekTarget cfgEnd = (0, 0)
   \<and> outcome (TailFile fsHW ''f'' cfgEnd)
        = Returned (Inr (opened fsHW ''f'' cfgEnd (fileOf [''hello'', ''world''])))
   \<and> map Text (delivered (run 9 (opened fsHW ''f'' cfgEnd (fileOf [''hello'', ''world'']))))
        = [''hello'', ''world'']
   \<and> pc (run 9 (opened fsHW ''f'' cfgEnd (fileOf [''hello'', ''world'']))) = Waiting"
proof -
  define content where "content = fileOf [''hello'', ''world'']"
  have fs: "fsHW ''f'' = Inr content" by (simp add: fsHW_def fsWith_def content_def)
  have o: "outcome (TailFile fsHW ''f'' cfgEnd) = Returned (Inr (opened fsHW ''f'' cfgEnd content))"
    using start_mustExist(1) [of cfgEnd fsHW "''f''" content] cfgEnd_facts fs by simp
  have a: "run 2 (opened fsHW ''f'' cfgEnd content) = atReading fsHW ''f'' cfgEnd content"
    using start_mustExist(2) [of cfgEnd fsHW "''f''" content] cfgEnd_facts fs by simp
  have pl: "\<forall>l \<in> set [''hello'', ''world'']. plain cfgEnd l"
    using cfgEnd_facts(5) by (simp add: plain_def LF_def CR_def defaultBufSize_def)
  have b: "run 7 (atReading fsHW ''f'' cfgEnd content) = atFinal fsHW ''f'' cfgEnd [''hello'', ''world'']"
    using Reading_to_atFinal [OF pl, of fsHW "''f''"] by (simp add: content_def)
  have "run 9 (opened fsHW ''f'' cfgEnd content) = run 7 (run 2 (opened fsHW ''f'' cfgEnd content))"
    using run_add [of 2 7 "opened fsHW ''f'' cfgEnd content"] by simp
  then have r: "run 9 (opened fsHW ''f'' cfgEnd content) = atFinal fsHW ''f'' cfgEnd [''hello'', ''world'']"
    by (simp only: a b)
  have f: "map Text (delivered (atFinal fsHW ''f'' cfgEnd [''hello'', ''world''])) = [''hello'', ''world'']"
     "pc (atFinal fsHW ''f'' cfgEnd [''hello'', ''world'']) = Waiting"
    using atFinal_props [of fsHW "''f''" cfgEnd "[''hello'', ''world'']"] cfgEnd_facts(3) by simp_all
  show ?thesis
    using cfgEnd_facts(4,6) o r f unfolding content_def by simp
qed

section \<open>Split lines as delivered\<close>

lemma iteration_split:
  assumes "pc t = Reading" and "\<not> dying t" and "unread t = l @ LF # rest"
      and "LF \<notin> set l" and "length l < defaultBufSize" and "l = [] \<or> last l \<noteq> CR"
      and "emitLine (cfg t) l (now t) = Some (Inr frags)" and "frags \<noteq> []"
  shows "nextStep t = t\<lparr>unread := rest, pc := Sending frags\<rparr>"
    and "run (length frags + 2) t = t\<lparr>unread := rest, delivered := delivered t @ frags\<rparr>"
proof -
  have r: "readLine (unread t) (readFault t) = ((Some l, None), rest)"
    using assms(3,4,5,6) by (simp add: readLine_line)
  define t1 where "t1 = t\<lparr>unread := rest, pc := Sending frags\<rparr>"
  define t2 where "t2 = t1\<lparr>delivered := delivered t1 @ frags, pc := Checking\<rparr>"
  have s1: "nextStep t = t1"
    using assms(1,7,8) r by (simp add: nextStep_def consumerRecv_def driverStep_def t1_def)
  then show "nextStep t = t\<lparr>unread := rest, pc := Sending frags\<rparr>" by (simp add: t1_def)
  have s2: "run (length frags) t1 = t2"
    unfolding t2_def using assms(8) by (intro sending_drains) (simp_all add: t1_def)
  have s3: "nextStep t2 = t2\<lparr>pc := Reading\<rparr>"
    using assms(2) by (simp add: nextStep_def consumerRecv_def driverStep_def t1_def t2_def)
  have "run (length frags + 2) t = run (length frags + 1) (nextStep t)"
    using run_Suc [of "length frags + 1" t] by simp
  also have "\<dots> = run 1 (run (length frags) t1)"
    unfolding s1 by (rule run_add)
  also have "\<dots> = t2\<lparr>pc := Reading\<rparr>"
    by (simp only: s2 run_1 s3)
  finally show "run (length frags + 2) t = t\<lparr>unread := rest, delivered := delivered t @ frags\<rparr>"
    using assms(1) by (simp add: t1_def t2_def)
qed

text \<open>
  Claim C3, amended. Let \<open>MaxLineSize\<close> be \<open>k > 0\<close> and let the driver be about to read,
  not stopped, at a complete line of the file of length \<open>L > k\<close> that is shorter than
  the reader's buffer of 4096 bytes and does not end in a carriage return. Then the
  driver's next step is to send fragments, and with a consumer that receives what is
  offered they are delivered, in order and right after what was delivered before, with
  the reader left behind the line's newline. The fragments concatenate to exactly the
  line; there are \<open>ceil(L / k)\<close> of them (\<open>(L + k - 1) div k\<close>); every fragment but the
  last has exactly \<open>k\<close> bytes and the last has between 1 and \<open>k\<close>; all carry the one
  instant captured when the line was read.
\<close>

theorem split_line_delivered:
  assumes "pc t = Reading" and "\<not> dying t" and "unread t = l @ LF # rest"
      and "LF \<notin> set l" and "length l < defaultBufSize" and "l = [] \<or> last l \<noteq> CR"
      and "0 < MaxLineSize (cfg t)" and "MaxLineSize (cfg t) < int (length l)"
  shows "\<exists>frags. nextStep t = t\<lparr>unread := rest, pc := Sending frags\<rparr>
     \<and> run (length frags + 2) t = t\<lparr>unread := rest, delivered := delivered t @ frags\<rparr>
     \<and> concat (map Text frags) = l
     \<and> int (length frags) = (int (length l) + MaxLineSize (cfg t) - 1) div MaxLineSize (cfg t)
     \<and> (\<forall>i. Suc i < length frags \<longrightarrow> int (length (Text (frags ! i))) = MaxLineSize (cfg t))
     \<and> 0 < length (Text (last frags))
     \<and> int (length (Text (last frags))) \<le> MaxLineSize (cfg t)
     \<and> (\<forall>f \<in> set frags. Time f = now t)"
proof -
  obtain frags where e: "emitLine (cfg t) l (now t) = Some (Inr frags)"
    and c: "concat (map Text frags) = l"
    and n: "int (length frags) = (int (length l) + MaxLineSize (cfg t) - 1) div MaxLineSize (cfg t)"
    and f: "\<forall>i. Suc i < length frags \<longrightarrow> int (length (Text (frags ! i))) = MaxLineSize (cfg t)"
    and la: "0 < length (Text (last frags))" "int (length (Text (last frags))) \<le> MaxLineSize (cfg t)"
    and s: "\<forall>f \<in> set frags. Time f = now t"
    using emitLine_split [OF assms(7,8), of "now t"] by blast
  have "l \<noteq> []" using assms(7,8) by auto
  then have ne: "frags \<noteq> []" using c by auto
  have a: "nextStep t = t\<lparr>unread := rest, pc := Sending frags\<rparr>"
    using assms(1,2,3,4,5,6) e ne by (rule iteration_split(1))
  have b: "run (length frags + 2) t = t\<lparr>unread := rest, delivered := delivered t @ frags\<rparr>"
    using assms(1,2,3,4,5,6) e ne by (rule iteration_split(2))
  show ?thesis
    by (rule exI [of _ frags]) (intro conjI a b c n f la s)
qed

lemma emitLine_hello:
  "emitLine cfg3 ''hello'' 0 = Some (Inr [\<lparr>Text = ''hel'', Time = 0\<rparr>, \<lparr>Text = ''lo'', Time = 0\<rparr>])"
  by code_simp

text \<open>Witness for the amended C3: the line \<open>hello\<close> with \<open>MaxLineSize = 3\<close>.\<close>

theorem split_line_delivered_witness:
  "\<exists>frags. nextStep readingHello = readingHello\<lparr>unread := [], pc := Sending frags\<rparr>
     \<and> run (length frags + 2) readingHello
          = readingHello\<lparr>unread := [], delivered := delivered readingHello @ frags\<rparr>
     \<and> concat (map Text frags) = ''hello''
     \<and> int (length frags) = 2
     \<and> (\<forall>i. Suc i < length frags \<longrightarrow> int (length (Text (frags ! i))) = 3)
     \<and> 0 < length (Text (last frags))
     \<and> int (length (Text (last frags))) \<le> 3
     \<and> (\<forall>f \<in> set frags. Time f = 0)"
proof -
  have h: "pc readingHello = Reading" "\<not> dying readingHello"
    "unread readingHello = ''hello'' @ LF # []"
    "cfg readingHello = cfg3" "now readingHello = 0"
    by (simp_all add: readingHello_def atReading_def newTail_def fileOf_def)
  have g: "LF \<notin> set ''hello''" "length ''hello'' < defaultBufSize"
    "''hello'' = [] \<or> last ''hello'' \<noteq> CR"
    by (simp_all add: LF_def CR_def defaultBufSize_def)
  have k: "0 < MaxLineSize (cfg readingHello)"
    "MaxLineSize (cfg readingHello) < int (length ''hello'')"
    by (simp_all add: h(4) cfg3_def)
  show ?thesis
    using split_line_delivered [OF h(1) h(2) h(3) g k] by (simp add: h(4,5) cfg3_def)
qed

lemma cfg3_facts:
  "\<not> (ReOpen cfg3 \<and> \<not> Follow cfg3)" "\<not> MustExist cfg3" "Follow cfg3"
  "seekTarget cfg3 = (0, 0)" "MaxLineSize cfg3 = 3"
  by (simp_all add: cfg3_def seekTarget_def)

text \<open>
  Claim C3, as stated, fails: with \<open>MaxLineSize = 3\<close>, the file whose single complete line
  is \<open>hello\<close> followed by a carriage return (6 bytes, then LF) yields the fragments
  \<open>hel\<close> and \<open>lo\<close>, which do not concatenate to the line: its last byte is lost. The
  driver then waits for changes.
\<close>

theorem split_line_counterexample:
  "fileOf [''hello'' @ [CR]] = ''hello'' @ [CR, LF]
   \<and> outcome (TailFile fsHelloCR ''f'' cfg3) = Returned (Inr (newTail fsHelloCR ''f'' cfg3))
   \<and> map Text (delivered (run 8 (newTail fsHelloCR ''f'' cfg3))) = [''hel'', ''lo'']
   \<and> pc (run 8 (newTail fsHelloCR ''f'' cfg3)) = Waiting
   \<and> concat (map Text (delivered (run 8 (newTail fsHelloCR ''f'' cfg3)))) \<noteq> ''hello'' @ [CR]"
proof -
  define content where "content = ''hello'' @ [CR, LF]"
  define frags where "frags = [\<lparr>Text = ''hel'', Time = 0\<rparr>, \<lparr>Text = ''lo'', Time = (0::nat)\<rparr>]"
  define tR where "tR = atReading fsHelloCR ''f'' cfg3 content"
  define tS where "tS = tR\<lparr>unread := [], pc := Sending frags\<rparr>"
  define tC where "tC = tS\<lparr>delivered := delivered tS @ frags, pc := Checking\<rparr>"
  have fo: "fileOf [''hello'' @ [CR]] = content" unfolding fileOf_def content_def by simp
  have fs: "fsHelloCR ''f'' = Inr content" unfolding fsHelloCR_def fsWith_def fo by simp
  have o: "outcome (TailFile fsHelloCR ''f'' cfg3) = Returned (Inr (newTail fsHelloCR ''f'' cfg3))"
    using start_lazy(1) [of cfg3 fsHelloCR "''f''" content] cfg3_facts fs by simp
  have a: "run 3 (newTail fsHelloCR ''f'' cfg3) = tR"
    using start_lazy(2) [of cfg3 fsHelloCR "''f''" content] cfg3_facts fs by (simp add: tR_def)
  have rl: "readLine content None = ((Some ''hello'', None), [])"
    using readLine_crlf [of "''hello''" "[]" None]
    by (simp add: content_def LF_def defaultBufSize_def)
  have b: "nextStep tR = tS"
    using rl emitLine_hello
    by (simp add: nextStep_def consumerRecv_def driverStep_def tR_def tS_def frags_def
        atReading_def newTail_def)
  have c: "run 2 tS = tC"
    using sending_drains [of tS frags] by (simp add: tS_def tC_def frags_def numeral_2_eq_2)
  have d: "nextStep tC = atEnd fsHelloCR ''f'' cfg3 [''hel'', ''lo'']"
    by (simp add: nextStep_def consumerRecv_def driverStep_def tC_def tS_def tR_def frags_def
        atReading_def atEnd_def newTail_def)
  have e: "nextStep (atEnd fsHelloCR ''f'' cfg3 [''hel'', ''lo''])
             = atWaiting fsHelloCR ''f'' cfg3 [''hel'', ''lo'']"
    using cfg3_facts(3) by (rule atEnd_follow)
  have "run 8 (newTail fsHelloCR ''f'' cfg3)
          = run (3 + (1 + (2 + (1 + 1)))) (newTail fsHelloCR ''f'' cfg3)"
    by simp
  also have "\<dots> = run 1 (run 1 (run 2 (run 1 (run 3 (newTail fsHelloCR ''f'' cfg3)))))"
    by (simp only: run_add)
  finally have "run 8 (newTail fsHelloCR ''f'' cfg3)
          = run 1 (run 1 (run 2 (run 1 (run 3 (newTail fsHelloCR ''f'' cfg3)))))" .
  then have r: "run 8 (newTail fsHelloCR ''f'' cfg3) = atWaiting fsHelloCR ''f'' cfg3 [''hel'', ''lo'']"
    by (simp only: a run_1 b c d e)
  have w: "map Text (delivered (atWaiting fsHelloCR ''f'' cfg3 [''hel'', ''lo''])) = [''hel'', ''lo'']"
    "pc (atWaiting fsHelloCR ''f'' cfg3 [''hel'', ''lo'']) = Waiting"
    by (simp_all add: atWaiting_def atEnd_def)
  show ?thesis
    using fo o r w unfolding content_def by simp
qed

end
